theory Spec2Isabelle
  imports Main "HOL-Library.Sublist" "HOL-Library.Char_ord" "HOL-Library.List_Lexorder"
begin

section \<open>Strings as Python uses them\<close>

text \<open>
  Python \<open>str\<close> and \<open>bytes\<close> values are modelled as \<open>string\<close> (a list of 8-bit
  characters, the UTF-8 encoding of the text). Substring search and lexicographic comparison
  on the UTF-8 bytes agree with Python's on code points. Case folding (\<open>str.lower\<close>) and the
  character classes \<open>\d\<close> and \<open>\w\<close> are modelled on their ASCII range; bytes beyond ASCII
  are left unchanged by \<open>lower\<close> and count as word characters (every letter beyond ASCII is
  one for Python's \<open>\w\<close>).
\<close>

datatype error =
  ValueError | IndexError | TypeError | AttributeError | RecursionError
  | OSError | ResponseError | RequestException | FitzError | ParserError

definition is_digit :: "char \<Rightarrow> bool" where
  "is_digit c = (c \<in> set ''0123456789'')"

definition is_upper :: "char \<Rightarrow> bool" where
  "is_upper c = (c \<in> set ''ABCDEFGHIJKLMNOPQRSTUVWXYZ'')"

definition is_lower :: "char \<Rightarrow> bool" where
  "is_lower c = (c \<in> set ''abcdefghijklmnopqrstuvwxyz'')"

definition is_ascii_alpha :: "char \<Rightarrow> bool" where
  "is_ascii_alpha c = (is_upper c \<or> is_lower c)"

definition is_word :: "char \<Rightarrow> bool" where
  "is_word c = (is_ascii_alpha c \<or> is_digit c \<or> c = CHR ''_'' \<or> CHR 0x80 \<le> c)"

definition lower_chr :: "char \<Rightarrow> char" where
  "lower_chr c =
     (case map_of (zip ''ABCDEFGHIJKLMNOPQRSTUVWXYZ'' ''abcdefghijklmnopqrstuvwxyz'') c of
        Some d \<Rightarrow> d
      | None \<Rightarrow> c)"

definition lower :: "string \<Rightarrow> string" where
  "lower s = map lower_chr s"

text \<open>\<open>k in s\<close> on strings: \<open>contains s k\<close>.\<close>

fun contains :: "string \<Rightarrow> string \<Rightarrow> bool" where
  "contains [] k = (k = [])"
| "contains (c # cs) k = (prefix k (c # cs) \<or> contains cs k)"

definition endswith :: "string \<Rightarrow> string \<Rightarrow> bool" where
  "endswith s k = (length k \<le> length s \<and> drop (length s - length k) s = k)"

definition startswith :: "string \<Rightarrow> string \<Rightarrow> bool" where
  "startswith s k = (take (length k) s = k)"

text \<open>\<open>s.split(d)\<close> for a one-character separator: never the empty list.\<close>

fun split_chr :: "char \<Rightarrow> string \<Rightarrow> string list" where
  "split_chr d [] = [[]]"
| "split_chr d (c # cs) =
     (if c = d then [] # split_chr d cs
      else (case split_chr d cs of
              [] \<Rightarrow> [[c]]
            | p # ps \<Rightarrow> (c # p) # ps))"

text \<open>\<open>d.join(parts)\<close>.\<close>

fun join :: "string \<Rightarrow> string list \<Rightarrow> string" where
  "join d [] = []"
| "join d [p] = p"
| "join d (p # q # ps) = p @ d @ join d (q # ps)"

text \<open>
  \<open>s.replace(old, new)\<close> for a non-empty \<open>old\<close>: the occurrences are replaced from the
  left, without overlap.
\<close>

function replace :: "string \<Rightarrow> string \<Rightarrow> string \<Rightarrow> string" where
  "replace [] old new = []"
| "replace (c # cs) old new =
     (if old \<noteq> [] \<and> prefix old (c # cs)
      then new @ replace (drop (length old) (c # cs)) old new
      else c # replace cs old new)"
  by pat_completeness auto
termination
  by (relation "measure (\<lambda>(s, old, new). length s)") (auto simp: neq_Nil_conv)

text \<open>\<open>s.strip()\<close>: ASCII whitespace removed at both ends.\<close>

definition is_space :: "char \<Rightarrow> bool" where
  "is_space c = (c \<in> set [CHR '' '', CHR 0x09, CHR 0x0A, CHR 0x0B, CHR 0x0C, CHR 0x0D])"

definition strip :: "string \<Rightarrow> string" where
  "strip s = rev (dropWhile is_space (rev (dropWhile is_space s)))"

section \<open>URL parsing (urllib.parse)\<close>

text \<open>
  \<open>urlparse\<close> of the standard library, for the three components the crawler reads. The
  scheme is the text before the first colon when it is a letter followed by scheme characters;
  the network location follows \<open>//\<close> and ends at the first of \<open>/ ? #\<close>; the path ends at
  the first \<open>#\<close> or \<open>?\<close>, and for the schemes that take parameters at the first \<open>;\<close> of
  its last segment. A network location with an unbalanced square bracket raises ValueError.
\<close>

record parsed_url =
  scheme :: string
  netloc :: string
  path :: string

definition scheme_chars :: "char \<Rightarrow> bool" where
  "scheme_chars c = (is_ascii_alpha c \<or> is_digit c \<or> c \<in> set ''+-.'')"

definition split_scheme :: "string \<Rightarrow> string \<times> string" where
  "split_scheme url =
     (let pre = takeWhile (\<lambda>c. c \<noteq> CHR '':'') url in
      if length pre < length url \<and> pre \<noteq> [] \<and> is_ascii_alpha (hd pre)
         \<and> list_all scheme_chars pre
      then (lower pre, drop (Suc (length pre)) url)
      else ([], url))"

definition is_netloc_end :: "char \<Rightarrow> bool" where
  "is_netloc_end c = (c \<in> set ''/?#'')"

definition splitnetloc :: "string \<Rightarrow> string \<times> string" where
  "splitnetloc url =
     (if take 2 url = ''//''
      then (takeWhile (\<lambda>c. \<not> is_netloc_end c) (drop 2 url),
            dropWhile (\<lambda>c. \<not> is_netloc_end c) (drop 2 url))
      else ([], url))"

definition uses_params :: "string list" where
  "uses_params = [[], ''ftp'', ''hdl'', ''prospero'', ''http'', ''imap'', ''https'',
     ''shttp'', ''rtsp'', ''rtspu'', ''sip'', ''sips'', ''mms'', ''sftp'', ''tel'']"

text \<open>The part of \<open>p\<close> after its last slash (all of \<open>p\<close> when it has none).\<close>

definition basename :: "string \<Rightarrow> string" where
  "basename p = rev (takeWhile (\<lambda>c. c \<noteq> CHR ''/'') (rev p))"

definition dirpart :: "string \<Rightarrow> string" where
  "dirpart p = take (length p - length (basename p)) p"

definition splitparams :: "string \<Rightarrow> string" where
  "splitparams p = dirpart p @ takeWhile (\<lambda>c. c \<noteq> CHR '';'') (basename p)"

definition urlparse :: "string \<Rightarrow> error + parsed_url" where
  "urlparse url =
     (let (sch, rest) = split_scheme url;
          (loc, rest') = splitnetloc rest;
          p = takeWhile (\<lambda>c. c \<noteq> CHR ''?'') (takeWhile (\<lambda>c. c \<noteq> CHR ''#'') rest')
      in if (CHR ''['' \<in> set loc) \<noteq> (CHR '']'' \<in> set loc) then Inl ValueError
         else Inr \<lparr> scheme = sch, netloc = loc,
                    path = (if sch \<in> set uses_params then splitparams p else p) \<rparr>)"

section \<open>Domain derivation (get_domain)\<close>

text \<open>
  \<open>get_domain\<close>: every occurrence of \<open>www.\<close> is removed from the network location, the
  port is cut at the first colon, and the last two dot-separated labels are kept.
\<close>

definition last2 :: "'a list \<Rightarrow> 'a list" where
  "last2 xs = drop (length xs - 2) xs"

definition get_domain :: "string \<Rightarrow> error + string" where
  "get_domain url =
     (case urlparse url of
        Inl e \<Rightarrow> Inl e
      | Inr parsed \<Rightarrow>
          (let loc = hd (split_chr CHR '':'' (replace (netloc parsed) ''www.'' []));
               parts = split_chr CHR ''.'' loc
           in if length parts \<ge> 2 then Inr (join ''.'' (last2 parts)) else Inr loc))"

section \<open>The external key-value store (Redis)\<close>

text \<open>
  The store maps a key to a list or a set of strings; a key that holds nothing is absent.
  A list command on a key that holds a set (and the converse) is refused by the server
  (WRONGTYPE), which the client raises as ResponseError. A list emptied by a pop is removed.
\<close>

datatype redis_value = RList "string list" | RSet "string set"

type_synonym redis_store = "string \<Rightarrow> redis_value option"

definition r_delete :: "redis_store \<Rightarrow> string \<Rightarrow> redis_store" where
  "r_delete r k = r(k := None)"

definition r_sismember :: "redis_store \<Rightarrow> string \<Rightarrow> string \<Rightarrow> error + bool" where
  "r_sismember r k v =
     (case r k of
        None \<Rightarrow> Inr False
      | Some (RSet S) \<Rightarrow> Inr (v \<in> S)
      | Some (RList xs) \<Rightarrow> Inl ResponseError)"

definition r_sadd :: "redis_store \<Rightarrow> string \<Rightarrow> string \<Rightarrow> error + redis_store" where
  "r_sadd r k v =
     (case r k of
        None \<Rightarrow> Inr (r(k \<mapsto> RSet {v}))
      | Some (RSet S) \<Rightarrow> Inr (r(k \<mapsto> RSet (insert v S)))
      | Some (RList xs) \<Rightarrow> Inl ResponseError)"

definition r_lpush :: "redis_store \<Rightarrow> string \<Rightarrow> string \<Rightarrow> error + redis_store" where
  "r_lpush r k v =
     (case r k of
        None \<Rightarrow> Inr (r(k \<mapsto> RList [v]))
      | Some (RList xs) \<Rightarrow> Inr (r(k \<mapsto> RList (v # xs)))
      | Some (RSet S) \<Rightarrow> Inl ResponseError)"

definition r_rpush :: "redis_store \<Rightarrow> string \<Rightarrow> string \<Rightarrow> error + redis_store" where
  "r_rpush r k v =
     (case r k of
        None \<Rightarrow> Inr (r(k \<mapsto> RList [v]))
      | Some (RList xs) \<Rightarrow> Inr (r(k \<mapsto> RList (xs @ [v])))
      | Some (RSet S) \<Rightarrow> Inl ResponseError)"

definition r_lpop :: "redis_store \<Rightarrow> string \<Rightarrow> error + (string option \<times> redis_store)" where
  "r_lpop r k =
     (case r k of
        None \<Rightarrow> Inr (None, r)
      | Some (RSet S) \<Rightarrow> Inl ResponseError
      | Some (RList xs) \<Rightarrow>
          (case xs of
             [] \<Rightarrow> Inr (None, r(k := None))
           | x # xs' \<Rightarrow> Inr (Some x, if xs' = [] then r(k := None) else r(k \<mapsto> RList xs'))))"

text \<open>The pending queue and the seen set as the crawler reads them.\<close>

definition queue_of :: "redis_store \<Rightarrow> string list" where
  "queue_of r = (case r ''url_queue'' of Some (RList xs) \<Rightarrow> xs | _ \<Rightarrow> [])"

definition seen_of :: "redis_store \<Rightarrow> string set" where
  "seen_of r = (case r ''seen_urls'' of Some (RSet S) \<Rightarrow> S | _ \<Rightarrow> {})"

definition log_of :: "redis_store \<Rightarrow> string list" where
  "log_of r = (case r ''downloaded_files'' of Some (RList xs) \<Rightarrow> xs | _ \<Rightarrow> [])"

section \<open>The file system (os, os.path)\<close>

text \<open>
  A path is read as its list of components (empty components and \<open>.\<close> dropped); the file
  system maps a component list to a directory or to a file with its content. The root is a
  directory. The calls are the POSIX ones: \<open>makedirs(exist_ok=True)\<close> fails where a
  component is a file; writing fails on a directory or under a missing parent; \<open>rename\<close>
  replaces a file and fails on a directory.
\<close>

datatype node = Dir | File string

type_synonym filesystem = "string list \<Rightarrow> node option"

definition components :: "string \<Rightarrow> string list" where
  "components p = filter (\<lambda>c. c \<noteq> [] \<and> c \<noteq> ''.'') (split_chr CHR ''/'' p)"

definition path_join :: "string \<Rightarrow> string \<Rightarrow> string" where
  "path_join a b =
     (if startswith b ''/'' then b
      else if a = [] \<or> endswith a ''/'' then a @ b
      else a @ ''/'' @ b)"

definition is_dir :: "filesystem \<Rightarrow> string list \<Rightarrow> bool" where
  "is_dir fs cs = (cs = [] \<or> fs cs = Some Dir)"

definition is_file :: "filesystem \<Rightarrow> string list \<Rightarrow> bool" where
  "is_file fs cs = (case fs cs of Some (File d) \<Rightarrow> True | _ \<Rightarrow> False)"

definition makedirs :: "filesystem \<Rightarrow> string \<Rightarrow> error + filesystem" where
  "makedirs fs p =
     (let ds = tl (prefixes (components p)) in
      if list_ex (is_file fs) ds then Inl OSError
      else Inr (\<lambda>k. if k \<in> set ds then Some Dir else fs k))"

definition write_file :: "filesystem \<Rightarrow> string \<Rightarrow> string \<Rightarrow> error + filesystem" where
  "write_file fs p d =
     (let cs = components p in
      if cs = [] \<or> fs cs = Some Dir \<or> \<not> is_dir fs (butlast cs) then Inl OSError
      else Inr (fs(cs \<mapsto> File d)))"

definition getsize :: "filesystem \<Rightarrow> string \<Rightarrow> error + nat" where
  "getsize fs p =
     (case fs (components p) of
        Some (File d) \<Rightarrow> Inr (length d)
      | Some Dir \<Rightarrow> Inr 4096
      | None \<Rightarrow> Inl OSError)"

definition remove :: "filesystem \<Rightarrow> string \<Rightarrow> error + filesystem" where
  "remove fs p =
     (if is_file fs (components p) then Inr (fs(components p := None)) else Inl OSError)"

definition rename :: "filesystem \<Rightarrow> string \<Rightarrow> string \<Rightarrow> error + filesystem" where
  "rename fs src dst =
     (case fs (components src) of
        Some (File d) \<Rightarrow>
          (if components dst = [] \<or> fs (components dst) = Some Dir
              \<or> \<not> is_dir fs (butlast (components dst))
           then Inl OSError
           else Inr ((fs(components src := None))(components dst \<mapsto> File d)))
      | _ \<Rightarrow> Inl OSError)"

text \<open>
  \<open>os.path.splitext(p)[1]\<close>: the extension of the last component, from its last dot, unless
  only dots precede it.
\<close>

definition splitext_ext :: "string \<Rightarrow> string" where
  "splitext_ext p =
     (let b = basename p;
          e = rev (takeWhile (\<lambda>c. c \<noteq> CHR ''.'') (rev b));
          stem = take (length b - length e - 1) b
      in if length e < length b \<and> list_ex (\<lambda>c. c \<noteq> CHR ''.'') stem then CHR ''.'' # e
         else [])"

section \<open>The outside world\<close>

text \<open>
  What the crawler reads from outside is a parameter of the model: the HTTP client, the
  headless browser, the HTML parser, the PDF library, the MD5 digest and the clock. A PDF
  document is what the crawler reads of it: whether it is encrypted, the two metadata dates,
  and the text of each page. A library call that raises returns \<open>Inl\<close>.
\<close>

record response =
  resp_status :: nat
  resp_content_type :: string
  resp_content :: string
  resp_text :: string

record pdf_doc =
  doc_encrypted :: bool
  doc_creationDate :: "string option"
  doc_modDate :: "string option"
  doc_pages :: "string list"

record soup =
  soup_a_hrefs :: "string list"
  soup_embed_srcs :: "string option list"

record env =
  env_http_get :: "string \<Rightarrow> error + response"
  env_render :: "string \<Rightarrow> string option"
  env_soup :: "string option \<Rightarrow> error + soup"
  env_urljoin :: "string \<Rightarrow> string \<Rightarrow> string"
  env_fitz_stream :: "string \<Rightarrow> error + pdf_doc"
  env_fitz_file :: "string \<Rightarrow> error + pdf_doc"
  env_robots :: "string \<Rightarrow> string \<Rightarrow> error + bool"
  env_md5 :: "string \<Rightarrow> string"
  env_now_year :: nat
  env_isoformat :: string
  env_output_dir :: string

section \<open>Year extraction\<close>

text \<open>
  \<open>datetime.now().strftime('%Y')\<close>: the year of the clock in decimal digits (not padded,
  as the C library writes it).
\<close>

definition digit_chr :: "nat \<Rightarrow> char" where
  "digit_chr d = ''0123456789'' ! d"

fun strftime_Y :: "nat \<Rightarrow> string" where
  "strftime_Y y = (if y < 10 then [digit_chr y] else strftime_Y (y div 10) @ [digit_chr (y mod 10)])"

text \<open>The pattern \<open>(19|20)\d{2}\<close> at the head of a string.\<close>

definition year_at :: "string \<Rightarrow> bool" where
  "year_at s =
     (length s \<ge> 4 \<and> (take 2 s = ''19'' \<or> take 2 s = ''20'')
      \<and> is_digit (s ! 2) \<and> is_digit (s ! 3))"

text \<open>\<open>re.search(r'(19|20)\d{2}', s)\<close>: the leftmost match.\<close>

fun search_plain_year :: "string \<Rightarrow> string option" where
  "search_plain_year [] = None"
| "search_plain_year (c # cs) =
     (if year_at (c # cs) then Some (take 4 (c # cs)) else search_plain_year cs)"

text \<open>
  \<open>re.search(r'\b(19|20)\d{2}\b', s)\<close>: the flag says whether the character before the
  position is a word character.
\<close>

fun search_word_year :: "bool \<Rightarrow> string \<Rightarrow> string option" where
  "search_word_year pw [] = None"
| "search_word_year pw (c # cs) =
     (if \<not> pw \<and> year_at (c # cs) \<and> \<not> list_ex is_word (take 1 (drop 4 (c # cs)))
      then Some (take 4 (c # cs))
      else search_word_year (is_word c) cs)"

text \<open>\<open>re.search(r'/(?:19|20)\d{2}/', s)\<close>, stripped of its slashes.\<close>

fun search_slash_year :: "string \<Rightarrow> string option" where
  "search_slash_year [] = None"
| "search_slash_year (c # cs) =
     (if c = CHR ''/'' \<and> year_at cs \<and> take 1 (drop 4 cs) = ''/'' then Some (take 4 cs)
      else search_slash_year cs)"

text \<open>
  The version pattern \<open>(?:v|rev|version|ver)(?:\d{4}|(?:19|20)\d{2}-\d{2}-\d{2})\<close>, case
  ignored: the first alternative of the second group succeeds wherever the second would, so a
  match is a token and four digits.
\<close>

definition version_tokens :: "string list" where
  "version_tokens = [''v'', ''rev'', ''version'', ''ver'']"

definition version_at :: "string \<Rightarrow> string option" where
  "version_at s =
     (case filter (\<lambda>t. lower (take (length t) s) = t
                        \<and> length (drop (length t) s) \<ge> 4
                        \<and> list_all is_digit (take 4 (drop (length t) s))) version_tokens of
        [] \<Rightarrow> None
      | t # ts \<Rightarrow> Some (take (length t + 4) s))"

fun search_version :: "string \<Rightarrow> string option" where
  "search_version [] = None"
| "search_version (c # cs) =
     (case version_at (c # cs) of
        Some v \<Rightarrow> Some v
      | None \<Rightarrow> search_version cs)"

definition version_year :: "string \<Rightarrow> string option" where
  "version_year s =
     (case search_version s of
        None \<Rightarrow> None
      | Some version \<Rightarrow> search_plain_year version)"

text \<open>The ISO date pattern of \<open>extract_year_from_content\<close>, cut to its year.\<close>

definition month_at :: "string \<Rightarrow> bool" where
  "month_at s =
     (case s of
        a # b # r \<Rightarrow> (a = CHR ''0'' \<and> b \<in> set ''123456789'') \<or> (a = CHR ''1'' \<and> b \<in> set ''012'')
      | _ \<Rightarrow> False)"

definition day_at :: "string \<Rightarrow> bool" where
  "day_at s =
     (case s of
        a # b # r \<Rightarrow> (a = CHR ''0'' \<and> b \<in> set ''123456789'') \<or> (a \<in> set ''12'' \<and> is_digit b)
                     \<or> (a = CHR ''3'' \<and> b \<in> set ''01'')
      | _ \<Rightarrow> False)"

definition date_at :: "string \<Rightarrow> bool" where
  "date_at s =
     (year_at s \<and> take 1 (drop 4 s) = ''-'' \<and> month_at (drop 5 s)
      \<and> take 1 (drop 7 s) = ''-'' \<and> day_at (drop 8 s))"

fun search_date_year :: "string \<Rightarrow> string option" where
  "search_date_year [] = None"
| "search_date_year (c # cs) =
     (if date_at (c # cs) then Some (take 4 (c # cs)) else search_date_year cs)"

text \<open>The metadata pattern \<open>D:?(19|20)\d{2}\<close>: whether it matches anywhere.\<close>

fun has_meta_year :: "string \<Rightarrow> bool" where
  "has_meta_year [] = False"
| "has_meta_year (c # cs) =
     ((c = CHR ''D'' \<and> (year_at cs \<or> (take 1 cs = '':'' \<and> year_at (drop 1 cs))))
      \<or> has_meta_year cs)"

text \<open>
  \<open>extract_year_from_pdf\<close>: on a match the code reads \<open>group(2)\<close> of a pattern that has
  one group, which raises IndexError inside the \<open>try\<close>; the handler returns None.
\<close>

fun metadata_year :: "string option list \<Rightarrow> error + string option" where
  "metadata_year [] = Inr None"
| "metadata_year (m # ms) =
     (case m of
        None \<Rightarrow> metadata_year ms
      | Some v \<Rightarrow> if v \<noteq> [] \<and> has_meta_year v then Inl IndexError else metadata_year ms)"

definition extract_year_from_pdf :: "env \<Rightarrow> string \<Rightarrow> string option" where
  "extract_year_from_pdf E d =
     (case env_fitz_file E d of
        Inl e \<Rightarrow> None
      | Inr doc \<Rightarrow>
          if doc_encrypted doc then None
          else (case metadata_year [doc_creationDate doc, doc_modDate doc] of
                  Inl e \<Rightarrow> None
                | Inr y \<Rightarrow> y))"

definition first_pages_text :: "pdf_doc \<Rightarrow> string" where
  "first_pages_text doc = concat (take (min 3 (length (doc_pages doc))) (doc_pages doc))"

definition extract_year_from_content :: "env \<Rightarrow> string \<Rightarrow> string option" where
  "extract_year_from_content E d =
     (case env_fitz_file E d of
        Inl e \<Rightarrow> None
      | Inr doc \<Rightarrow>
          (case search_word_year False (first_pages_text doc) of
             Some y \<Rightarrow> Some y
           | None \<Rightarrow> search_date_year (first_pages_text doc)))"

definition extract_year_from_url :: "string \<Rightarrow> error + string option" where
  "extract_year_from_url url =
     (case urlparse url of
        Inl e \<Rightarrow> Inl e
      | Inr parsed \<Rightarrow>
          (case search_slash_year (path parsed) of
             Some y \<Rightarrow> Inr (Some y)
           | None \<Rightarrow> Inr (version_year (path parsed))))"

definition extract_year_from_filename :: "string \<Rightarrow> string option" where
  "extract_year_from_filename filename =
     (if filename = [] then None
      else (case search_word_year False filename of
              Some y \<Rightarrow> Some y
            | None \<Rightarrow> version_year filename))"

text \<open>
  The resolution of \<open>save_file\<close>: the candidates that are not None, and Python's \<open>min\<close> of
  them (strings compare lexicographically), or the clock's year when there is none.
\<close>

definition resolve_year :: "string option list \<Rightarrow> string \<Rightarrow> string" where
  "resolve_year cands now =
     (let year_candidates = List.map_filter (\<lambda>y. y) cands
      in if year_candidates \<noteq> [] then min_list year_candidates else now)"

section \<open>The crawler's state\<close>

text \<open>
  The crawler acts on the store, on the file system, and on the network; what it does on the
  network and what it writes to its log about the queue is recorded, in order, in a trace.
\<close>

datatype event =
  Seeded string | Added string | Dequeued string | Delay string
  | HttpGet string | Render string | RobotsGet string | EmptyWait

record state =
  redis :: redis_store
  files :: filesystem
  trace :: "event list"
  allowed_domains :: "string set"

definition emit :: "event \<Rightarrow> state \<Rightarrow> state" where
  "emit ev st = st\<lparr>trace := trace st @ [ev]\<rparr>"

section \<open>The accept gate (should_download)\<close>

definition copyright_keywords :: "string list" where
  "copyright_keywords = [''copyright'', [CHR 0xC2, CHR 0xA9], ''all rights reserved'']"

definition check_copyright :: "string \<Rightarrow> bool" where
  "check_copyright body = list_ex (\<lambda>keyword. contains (lower body) keyword) copyright_keywords"

definition SUPPORTED_TYPES :: "string list" where
  "SUPPORTED_TYPES = [''application/pdf'', ''text/xml'', ''application/xml'', ''text/html'']"

definition should_download :: "env \<Rightarrow> string \<Rightarrow> string \<Rightarrow> string \<Rightarrow> bool" where
  "should_download E url content_type content =
     (if content_type = ''application/pdf''
      then (case env_fitz_stream E content of
              Inl e \<Rightarrow> False
            | Inr doc \<Rightarrow>
                if doc_encrypted doc then False
                else if check_copyright (first_pages_text doc) then False
                else content_type \<in> set SUPPORTED_TYPES)
      else content_type \<in> set SUPPORTED_TYPES)"

section \<open>The storage writer (save_file)\<close>

text \<open>
  \<open>re.search(r'\.\w+$', filename)\<close>: a dot and a run of word characters at the end, or
  before a final newline.
\<close>

definition ext_tail :: "string \<Rightarrow> bool" where
  "ext_tail s =
     (let w = takeWhile is_word (rev s)
      in w \<noteq> [] \<and> take 1 (drop (length w) (rev s)) = ''.'')"

definition has_extension :: "string \<Rightarrow> bool" where
  "has_extension s = (ext_tail s \<or> (s \<noteq> [] \<and> last s = CHR 0x0A \<and> ext_tail (butlast s)))"

definition derive_filename :: "env \<Rightarrow> string \<Rightarrow> string \<Rightarrow> parsed_url \<Rightarrow> string" where
  "derive_filename E url content_type parsed =
     (let filename = basename (path parsed);
          filename = (if filename = [] then env_md5 E url else filename)
      in if \<not> has_extension filename
         then (if contains content_type ''pdf'' then filename @ ''.pdf''
               else if contains content_type ''xml'' then filename @ ''.xml''
               else (let ext = splitext_ext (path parsed)
                     in filename @ (if ext \<noteq> [] then ext else ''.bin'')))
         else filename)"

text \<open>
  \<open>save_file\<close>: every exception of its body is caught and gives \<open>(None, None)\<close>; the file
  system keeps what was done before the exception.
\<close>

definition save_file ::
  "env \<Rightarrow> filesystem \<Rightarrow> string \<Rightarrow> string \<Rightarrow> string \<Rightarrow> string
   \<Rightarrow> (string option \<times> string option) \<times> filesystem" where
  "save_file E fs content domain url content_type =
     (let domain_dir = path_join (env_output_dir E) domain in
      case makedirs fs domain_dir of
        Inl e \<Rightarrow> ((None, None), fs)
      | Inr fs1 \<Rightarrow>
     (case urlparse url of
        Inl e \<Rightarrow> ((None, None), fs1)
      | Inr parsed \<Rightarrow>
     (let filename = derive_filename E url content_type parsed;
          temp_path = path_join domain_dir ''temp_download'' in
      case write_file fs1 temp_path content of
        Inl e \<Rightarrow> ((None, None), fs1)
      | Inr fs2 \<Rightarrow>
     (case getsize fs2 temp_path of
        Inl e \<Rightarrow> ((None, None), fs2)
      | Inr file_size \<Rightarrow>
          if file_size < 50
          then (case remove fs2 temp_path of
                  Inl e \<Rightarrow> ((None, None), fs2)
                | Inr fs3 \<Rightarrow> ((None, None), fs3))
          else
     (case extract_year_from_url url of
        Inl e \<Rightarrow> ((None, None), fs2)
      | Inr year_url \<Rightarrow>
     (let year = resolve_year
                   [extract_year_from_pdf E content, extract_year_from_content E content,
                    year_url, extract_year_from_filename filename]
                   (strftime_Y (env_now_year E));
          year_dir = path_join domain_dir year in
      case makedirs fs2 year_dir of
        Inl e \<Rightarrow> ((None, None), fs2)
      | Inr fs3 \<Rightarrow>
     (let final_path = path_join year_dir filename in
      case rename fs3 temp_path final_path of
        Inl e \<Rightarrow> ((None, None), fs3)
      | Inr fs4 \<Rightarrow> ((Some final_path, Some year), fs4))))))))"

section \<open>The download log (log_download)\<close>

text \<open>
  \<open>json.dumps\<close> of the log entry: a string is quoted, with the quote, the backslash and the
  newline, return and tab escaped (other characters are written as they are); None is
  \<open>null\<close>.
\<close>

record log_entry =
  le_timestamp :: string
  le_url :: string
  le_domain :: string
  le_year :: "string option"
  le_file_path :: "string option"

definition json_chr :: "char \<Rightarrow> string" where
  "json_chr c =
     (if c = CHR 0x22 then [CHR 0x5C, CHR 0x22]
      else if c = CHR 0x5C then [CHR 0x5C, CHR 0x5C]
      else if c = CHR 0x0A then [CHR 0x5C, CHR ''n'']
      else if c = CHR 0x0D then [CHR 0x5C, CHR ''r'']
      else if c = CHR 0x09 then [CHR 0x5C, CHR ''t'']
      else [c])"

definition json_string :: "string \<Rightarrow> string" where
  "json_string s = [CHR 0x22] @ concat (map json_chr s) @ [CHR 0x22]"

definition json_opt :: "string option \<Rightarrow> string" where
  "json_opt v = (case v of None \<Rightarrow> ''null'' | Some s \<Rightarrow> json_string s)"

definition json_dumps :: "log_entry \<Rightarrow> string" where
  "json_dumps e =
     ''{'' @ json_string ''timestamp'' @ '': '' @ json_string (le_timestamp e) @ '', ''
     @ json_string ''url'' @ '': '' @ json_string (le_url e) @ '', ''
     @ json_string ''domain'' @ '': '' @ json_string (le_domain e) @ '', ''
     @ json_string ''year'' @ '': '' @ json_opt (le_year e) @ '', ''
     @ json_string ''file_path'' @ '': '' @ json_opt (le_file_path e) @ ''}''"

definition log_download ::
  "env \<Rightarrow> redis_store \<Rightarrow> string \<Rightarrow> string \<Rightarrow> string option \<Rightarrow> string option
   \<Rightarrow> error + redis_store" where
  "log_download E r url domain year file_path =
     (let log_entry = \<lparr> le_timestamp = env_isoformat E, le_url = url, le_domain = domain,
                        le_year = year, le_file_path = file_path \<rparr>
      in r_lpush r ''downloaded_files'' (json_dumps log_entry))"

section \<open>Direct download (download_pdf_direct)\<close>

definition download_pdf_direct ::
  "env \<Rightarrow> state \<Rightarrow> string \<Rightarrow> string \<Rightarrow> (error + bool) \<times> state" where
  "download_pdf_direct E st url domain =
     (let st1 = emit (HttpGet url) st in
      case env_http_get E url of
        Inl e \<Rightarrow> (Inl e, st1)
      | Inr response \<Rightarrow>
          if resp_status response \<noteq> 200 then (Inr False, st1)
          else
            (let content_type = resp_content_type response in
             if should_download E url content_type (resp_content response)
             then (case save_file E (files st1) (resp_content response) domain url content_type of
                     ((file_path, year), fs') \<Rightarrow>
                       (let st2 = st1\<lparr>files := fs'\<rparr> in
                        case log_download E (redis st2) url domain year file_path of
                          Inl e \<Rightarrow> (Inl e, st2)
                        | Inr r' \<Rightarrow> (Inr True, st2\<lparr>redis := r'\<rparr>)))
             else (Inr False, st1)))"

section \<open>The politeness gate (can_fetch)\<close>

text \<open>
  Modelled from the spec: \<open>get_robots_txt_url\<close>, which \<open>can_fetch\<close> calls and the sources
  do not define; the spec has the gate fetch \<open>https://<domain>/robots.txt\<close>.
\<close>

definition get_robots_txt_url :: "string \<Rightarrow> string" where
  "get_robots_txt_url domain = ''https://'' @ domain @ ''/robots.txt''"

text \<open>
  \<open>can_fetch\<close>: the verdict of the exclusion rules for the wildcard agent, or no verdict
  (None) when the fetch or the parse of \<open>robots.txt\<close> fails.
\<close>

definition can_fetch :: "env \<Rightarrow> state \<Rightarrow> string \<Rightarrow> (error + bool option) \<times> state" where
  "can_fetch E st url =
     (case get_domain url of
        Inl e \<Rightarrow> (Inl e, st)
      | Inr domain \<Rightarrow>
          (let robots_url = get_robots_txt_url domain;
               st1 = emit (RobotsGet robots_url) st
           in case env_robots E robots_url url of
                Inl e \<Rightarrow> (Inr None, st1)
              | Inr verdict \<Rightarrow> (Inr (Some verdict), st1)))"

section \<open>Link discovery (extract_links, check_for_embedded_documents)\<close>

text \<open>
  \<open>extract_links\<close> over the \<open>href\<close> values of the page's anchors: a link is kept when its
  scheme starts with \<open>http\<close>, it has a network location, and its domain is allowed.
\<close>

fun extract_links :: "env \<Rightarrow> string set \<Rightarrow> string list \<Rightarrow> string \<Rightarrow> error + string list" where
  "extract_links E allowed [] base_url = Inr []"
| "extract_links E allowed (href # hrefs) base_url =
     (let link = env_urljoin E base_url href in
      case urlparse link of
        Inl e \<Rightarrow> Inl e
      | Inr parsed \<Rightarrow>
          if \<not> (startswith (scheme parsed) ''http'' \<or> startswith (scheme parsed) ''https'')
          then extract_links E allowed hrefs base_url
          else if netloc parsed = [] \<or> scheme parsed \<in> set [''mailto'', ''javascript'']
          then extract_links E allowed hrefs base_url
          else (case get_domain link of
                  Inl e \<Rightarrow> Inl e
                | Inr link_domain \<Rightarrow>
                    if link_domain \<notin> allowed then extract_links E allowed hrefs base_url
                    else (case extract_links E allowed hrefs base_url of
                            Inl e \<Rightarrow> Inl e
                          | Inr links \<Rightarrow> Inr (link # links))))"

text \<open>The enqueue loop of \<open>process_url\<close>: a link that is not seen goes to the tail.\<close>

fun enqueue_links :: "state \<Rightarrow> string list \<Rightarrow> (error + unit) \<times> state" where
  "enqueue_links st [] = (Inr (), st)"
| "enqueue_links st (link # links) =
     (case r_sismember (redis st) ''seen_urls'' link of
        Inl e \<Rightarrow> (Inl e, st)
      | Inr True \<Rightarrow> enqueue_links st links
      | Inr False \<Rightarrow>
          (case r_rpush (redis st) ''url_queue'' link of
             Inl e \<Rightarrow> (Inl e, st)
           | Inr r1 \<Rightarrow>
               (case r_sadd r1 ''seen_urls'' link of
                  Inl e \<Rightarrow> (Inl e, st\<lparr>redis := r1\<rparr>)
                | Inr r2 \<Rightarrow> enqueue_links (emit (Added link) (st\<lparr>redis := r2\<rparr>)) links)))"

definition is_doc_ref :: "string \<Rightarrow> bool" where
  "is_doc_ref s = list_ex (\<lambda>ext. contains (lower s) ext) [''.pdf'', ''.xml'']"

definition embedded_links :: "env \<Rightarrow> soup \<Rightarrow> string \<Rightarrow> string list" where
  "embedded_links E sp url =
     map (env_urljoin E url)
       (filter (\<lambda>src. src \<noteq> [] \<and> is_doc_ref src) (List.map_filter (\<lambda>s. s) (soup_embed_srcs sp)))
     @ map (env_urljoin E url) (filter is_doc_ref (soup_a_hrefs sp))"

section \<open>Processing one URL (process_url)\<close>

text \<open>
  The page of a URL that is not a direct document: the rendered markup, or when rendering
  gave nothing the body of a plain GET; None is the early return on a status other than 200.
\<close>

definition fetch_soup ::
  "env \<Rightarrow> state \<Rightarrow> string \<Rightarrow> string option \<Rightarrow> (error + soup option) \<times> state" where
  "fetch_soup E st url html =
     (if html = None \<or> html = Some []
      then (let st1 = emit (HttpGet url) st in
            case env_http_get E url of
              Inl e \<Rightarrow> (Inl e, st1)
            | Inr response \<Rightarrow>
                if resp_status response \<noteq> 200 then (Inr None, st1)
                else (case env_soup E (Some (resp_text response)) of
                        Inl e \<Rightarrow> (Inl e, st1)
                      | Inr sp \<Rightarrow> (Inr (Some sp), st1)))
      else (case env_soup E html of
              Inl e \<Rightarrow> (Inl e, st)
            | Inr sp \<Rightarrow> (Inr (Some sp), st)))"

text \<open>
  The page branch of \<open>process_url\<close> up to the call of \<open>check_for_embedded_documents\<close>:
  render, fall back to a plain GET, enqueue the links, and parse the rendered markup again
  for the embedded documents. None is the early return of False.
\<close>

definition render_and_enqueue ::
  "env \<Rightarrow> state \<Rightarrow> string \<Rightarrow> (error + string list option) \<times> state" where
  "render_and_enqueue E st1 url =
     (let html = env_render E url in
      case fetch_soup E (emit (Render url) st1) url html of
        (Inl e, st3) \<Rightarrow> (Inl e, st3)
      | (Inr None, st3) \<Rightarrow> (Inr None, st3)
      | (Inr (Some sp), st3) \<Rightarrow>
     (case extract_links E (allowed_domains st3) (soup_a_hrefs sp) url of
        Inl e \<Rightarrow> (Inl e, st3)
      | Inr all_links \<Rightarrow>
     (case enqueue_links st3 all_links of
        (Inl e, st4) \<Rightarrow> (Inl e, st4)
      | (Inr u, st4) \<Rightarrow>
     (case env_soup E html of
        Inl e \<Rightarrow> (Inl e, st4)
      | Inr sp2 \<Rightarrow> (Inr (Some (embedded_links E sp2 url)), st4)))))"

text \<open>
  \<open>process_url\<close> and the loop of \<open>check_for_embedded_documents\<close>, which calls it for each
  embedded document that is not seen. Every exception of the body is caught and gives False.
  The first argument bounds the nesting of the calls, as the interpreter's recursion limit
  does: beyond it RecursionError is raised, and caught as every exception is.
\<close>

fun process_url :: "nat \<Rightarrow> env \<Rightarrow> state \<Rightarrow> string \<Rightarrow> bool \<times> state"
  and embedded_loop :: "nat \<Rightarrow> env \<Rightarrow> state \<Rightarrow> string list \<Rightarrow> (error + unit) \<times> state" where
  "process_url 0 E st url = (False, st)"
| "process_url (Suc n) E st url =
     (case get_domain url of
        Inl e \<Rightarrow> (False, st)
      | Inr domain \<Rightarrow>
     (let st1 = emit (Delay url) st in
      if endswith (lower url) ''.pdf'' \<or> endswith (lower url) ''.xml''
      then (case download_pdf_direct E st1 url domain of
              (Inl e, st2) \<Rightarrow> (False, st2)
            | (Inr success, st2) \<Rightarrow> (success, st2))
      else (case render_and_enqueue E st1 url of
              (Inl e, st4) \<Rightarrow> (False, st4)
            | (Inr None, st4) \<Rightarrow> (False, st4)
            | (Inr (Some doc_urls), st4) \<Rightarrow>
                (case embedded_loop n E st4 doc_urls of
                   (Inl e, st5) \<Rightarrow> (False, st5)
                 | (Inr u, st5) \<Rightarrow> (True, st5)))))"
| "embedded_loop n E st [] = (Inr (), st)"
| "embedded_loop n E st (doc_url # rest) =
     (case r_sismember (redis st) ''seen_urls'' doc_url of
        Inl e \<Rightarrow> (Inl e, st)
      | Inr True \<Rightarrow> embedded_loop n E st rest
      | Inr False \<Rightarrow>
          (case process_url n E st doc_url of
             (success, st') \<Rightarrow> embedded_loop n E st' rest))"

section \<open>The crawl (run)\<close>

text \<open>The fresh-run reset: the two \<open>delete\<close> calls at the start of \<open>run\<close>.\<close>

definition reset :: "redis_store \<Rightarrow> redis_store" where
  "reset r = r_delete (r_delete r ''url_queue'') ''seen_urls''"

text \<open>The allowed domains: the domain of every seed that is not empty.\<close>

fun seed_domains :: "string list \<Rightarrow> error + string set" where
  "seed_domains [] = Inr {}"
| "seed_domains (url # urls) =
     (if url = [] then seed_domains urls
      else (case get_domain url of
              Inl e \<Rightarrow> Inl e
            | Inr d \<Rightarrow>
                (case seed_domains urls of
                   Inl e \<Rightarrow> Inl e
                 | Inr ds \<Rightarrow> Inr (insert d ds))))"

text \<open>The seeding loop: a seed that ends in \<open>.pdf\<close> goes to the head, any other to the tail.\<close>

fun seed_urls :: "state \<Rightarrow> string list \<Rightarrow> (error + unit) \<times> state" where
  "seed_urls st [] = (Inr (), st)"
| "seed_urls st (url # urls) =
     (if url = [] then seed_urls st urls
      else (case r_sismember (redis st) ''seen_urls'' url of
              Inl e \<Rightarrow> (Inl e, st)
            | Inr True \<Rightarrow> seed_urls st urls
            | Inr False \<Rightarrow>
                (case (if endswith (lower url) ''.pdf''
                       then r_lpush (redis st) ''url_queue'' url
                       else r_rpush (redis st) ''url_queue'' url) of
                   Inl e \<Rightarrow> (Inl e, st)
                 | Inr r1 \<Rightarrow>
                     (case r_sadd r1 ''seen_urls'' url of
                        Inl e \<Rightarrow> (Inl e, st\<lparr>redis := r1\<rparr>)
                      | Inr r2 \<Rightarrow> seed_urls (emit (Seeded url) (st\<lparr>redis := r2\<rparr>)) urls))))"

text \<open>
  The crawl loop, for a number of iterations (the loop of the source has no exit): pop the
  head of the queue; wait when there is none; else process the URL, whatever comes of it.
  \<open>depth\<close> is the recursion limit left to \<open>process_url\<close>.
\<close>

fun crawl_loop :: "nat \<Rightarrow> nat \<Rightarrow> env \<Rightarrow> state \<Rightarrow> (error + unit) \<times> state" where
  "crawl_loop 0 depth E st = (Inr (), st)"
| "crawl_loop (Suc k) depth E st =
     (case r_lpop (redis st) ''url_queue'' of
        Inl e \<Rightarrow> (Inl e, st)
      | Inr (None, r') \<Rightarrow> crawl_loop k depth E (emit EmptyWait (st\<lparr>redis := r'\<rparr>))
      | Inr (Some url, r') \<Rightarrow>
          (let st1 = emit (Dequeued url) (st\<lparr>redis := r'\<rparr>) in
           if url = [] then crawl_loop k depth E (emit EmptyWait st1)
           else (case process_url depth E st1 (strip url) of
                   (success, st2) \<Rightarrow> crawl_loop k depth E st2)))"

text \<open>
  \<open>run\<close>, from the store and the file system it finds: the reset, the seeds (the lines of
  the seed file in their shuffled order, each stripped), the allowed domains, the seeding
  loop and the crawl loop.
\<close>

definition run ::
  "nat \<Rightarrow> nat \<Rightarrow> env \<Rightarrow> string list \<Rightarrow> redis_store \<Rightarrow> filesystem \<Rightarrow> (error + unit) \<times> state" where
  "run k depth E lines r fs =
     (let st0 = \<lparr> redis = reset r, files = fs, trace = [], allowed_domains = {} \<rparr>;
          urls = map strip lines
      in case seed_domains urls of
           Inl e \<Rightarrow> (Inl e, st0)
         | Inr ds \<Rightarrow>
             (case seed_urls (st0\<lparr>allowed_domains := ds\<rparr>) urls of
                (Inl e, st1) \<Rightarrow> (Inl e, st1)
              | (Inr u, st1) \<Rightarrow> crawl_loop k depth E st1))"

declare strftime_Y.simps [simp del]

section \<open>What the trace and the store say about the frontier\<close>

text \<open>
  The URLs added to the queue (the \<open>Seeded\<close> and \<open>Added\<close> lines of the log) and the URLs
  popped from it, in order; a store is \<open>typed\<close> when the queue key holds no set and the
  seen key holds no list, as after the reset. \<open>frontier_inv\<close> is the invariant of the crawl:
  no URL is added twice, the seen set is the set of the URLs added, and the URLs popped
  together with those still queued are the URLs added, each once.
\<close>

definition typed :: "redis_store \<Rightarrow> bool" where
  "typed r =
     ((case r ''url_queue'' of Some (RSet S) \<Rightarrow> False | _ \<Rightarrow> True)
      \<and> (case r ''seen_urls'' of Some (RList xs) \<Rightarrow> False | _ \<Rightarrow> True))"

fun enqueued :: "event list \<Rightarrow> string list" where
  "enqueued [] = []"
| "enqueued (Seeded u # es) = u # enqueued es"
| "enqueued (Added u # es) = u # enqueued es"
| "enqueued (e # es) = enqueued es"

fun dequeued :: "event list \<Rightarrow> string list" where
  "dequeued [] = []"
| "dequeued (Dequeued u # es) = u # dequeued es"
| "dequeued (e # es) = dequeued es"

definition frontier_inv :: "state \<Rightarrow> bool" where
  "frontier_inv st =
     (typed (redis st)
      \<and> distinct (enqueued (trace st))
      \<and> seen_of (redis st) = set (enqueued (trace st))
      \<and> distinct (dequeued (trace st) @ queue_of (redis st))
      \<and> set (dequeued (trace st) @ queue_of (redis st)) = set (enqueued (trace st)))"

text \<open>The \<open>robots.txt\<close> requests of a trace, in order.\<close>

fun robots_checks :: "event list \<Rightarrow> string list" where
  "robots_checks [] = []"
| "robots_checks (RobotsGet u # es) = u # robots_checks es"
| "robots_checks (e # es) = robots_checks es"

section \<open>Concrete inputs\<close>

text \<open>
  Inputs at which the theorems are evaluated: an empty file system, an outside world where
  every call fails (\<open>offline\<close>), one whose HTTP client answers 200 with a given type and
  body (\<open>serving\<close>), one whose PDF library reads a given document (\<open>reading\<close>), a state
  over a given store, a store with one page queued and seen, and contents of 50 and of 49
  bytes.
\<close>

definition no_files :: filesystem where
  "no_files = (\<lambda>k. None)"

definition offline :: env where
  "offline =
     \<lparr> env_http_get = (\<lambda>u. Inl RequestException),
       env_render = (\<lambda>u. None),
       env_soup = (\<lambda>h. Inl ParserError),
       env_urljoin = (\<lambda>b h. h),
       env_fitz_stream = (\<lambda>d. Inl FitzError),
       env_fitz_file = (\<lambda>d. Inl FitzError),
       env_robots = (\<lambda>r u. Inl RequestException),
       env_md5 = (\<lambda>u. ''d41d8cd98f00b204e9800998ecf8427e''),
       env_now_year = 2026,
       env_isoformat = ''2026-11-04T09:00:00'',
       env_output_dir = ''/data/raw'' \<rparr>"

definition serving :: "string \<Rightarrow> string \<Rightarrow> env" where
  "serving ctype body =
     offline\<lparr> env_http_get :=
       (\<lambda>u. Inr \<lparr> resp_status = 200, resp_content_type = ctype,
                    resp_content = body, resp_text = body \<rparr>) \<rparr>"

definition fresh :: "redis_store \<Rightarrow> state" where
  "fresh r = \<lparr> redis = r, files = no_files, trace = [], allowed_domains = {} \<rparr>"

definition one_page_queued :: redis_store where
  "one_page_queued =
     (\<lambda>k. None)(''url_queue'' \<mapsto> RList [''https://example.com/page''],
                  ''seen_urls'' \<mapsto> RSet {''https://example.com/page''})"

definition notice_pdf :: pdf_doc where
  "notice_pdf = \<lparr> doc_encrypted = False, doc_creationDate = None, doc_modDate = None,
                  doc_pages = [''Standard 42'', ''All Rights Reserved.''] \<rparr>"

definition plain_pdf :: pdf_doc where
  "plain_pdf = \<lparr> doc_encrypted = False, doc_creationDate = None, doc_modDate = None,
                 doc_pages = [''Standard 42'', ''Published 2021''] \<rparr>"

definition reading :: "pdf_doc \<Rightarrow> env" where
  "reading doc = offline\<lparr> env_fitz_stream := (\<lambda>d. Inr doc), env_fitz_file := (\<lambda>d. Inr doc) \<rparr>"

definition bytes50 :: string where
  "bytes50 = ''%PDF-1.4 fifty bytes of content at the size floor.''"

definition bytes49 :: string where
  "bytes49 = ''%PDF-1.4 fifty bytes of content at the size floor''"

text \<open>A file system where \<open>/data\<close> is a regular file, so that no output directory can be made.\<close>

definition blocked_root :: filesystem where
  "blocked_root = no_files([''data''] \<mapsto> File ''not a directory'')"

section \<open>Theorems\<close>

lemmas url_eval =
  get_domain_def urlparse_def split_scheme_def splitnetloc_def is_netloc_end_def
  scheme_chars_def is_ascii_alpha_def is_upper_def is_lower_def is_digit_def lower_def
  lower_chr_def uses_params_def splitparams_def basename_def dirpart_def last2_def Let_def

subsection \<open>C7: domain derivation on example.co.uk\<close>

text \<open>
  C7 as stated: \<open>get_domain\<close> maps \<open>https://docs.example.co.uk/x\<close> to
  \<open>example.co.uk\<close>. It does not: only the last two labels of the host are kept.
\<close>

theorem get_domain_not_registrable:
  "get_domain ''https://docs.example.co.uk/x'' \<noteq> Inr ''example.co.uk''"
  by (simp add: url_eval)

text \<open>
  C7, amended: \<open>get_domain\<close> yields \<open>co.uk\<close>, the last two labels of the host, for both
  \<open>https://docs.example.co.uk/x\<close> and \<open>https://www.example.co.uk/y\<close>; the two URLs map
  to the same value.
\<close>

theorem get_domain_two_labels:
  "get_domain ''https://docs.example.co.uk/x'' = Inr ''co.uk''
   \<and> get_domain ''https://www.example.co.uk/y'' = Inr ''co.uk''"
  by (simp add: url_eval)

subsection \<open>C2: year resolution\<close>


lemma strftime_Y_four: "1000 \<le> y \<Longrightarrow> y \<le> 9999 \<Longrightarrow> length (strftime_Y y) = 4"
proof -
  assume a: "1000 \<le> y" "y \<le> 9999"
  have 1: "\<not> y < 10" "\<not> y div 10 < 10" "\<not> y div 10 div 10 < 10" "y div 10 div 10 div 10 < 10"
    using a by auto
  show ?thesis
    using 1
    by (simp add: strftime_Y.simps [of y] strftime_Y.simps [of "y div 10"]
        strftime_Y.simps [of "y div 10 div 10"] strftime_Y.simps [of "y div 10 div 10 div 10"])
qed

lemma resolve_year_min:
  "List.map_filter (\<lambda>y. y) cands \<noteq> [] \<Longrightarrow>
   resolve_year cands now \<in> set (List.map_filter (\<lambda>y. y) cands)
   \<and> list_all (\<lambda>c. resolve_year cands now \<le> c) (List.map_filter (\<lambda>y. y) cands)"
  by (simp add: resolve_year_def min_list_Min list_all_iff)

lemma resolve_year_none: "List.map_filter (\<lambda>y. y) cands = [] \<Longrightarrow> resolve_year cands now = now"
  by (simp add: resolve_year_def)

text \<open>
  C2: the resolved year is the clock's year when no candidate is given, and else a candidate
  that is below every candidate in the lexicographic order of strings; for the candidates
  2021, 2019, 2023 it is 2019; with no candidate it is the clock's year, four digits long
  for a year from 1000 to 9999.
\<close>

theorem resolve_year_lex_min:
  "(if List.map_filter (\<lambda>c. c) cands = [] then resolve_year cands now = now
    else resolve_year cands now \<in> set (List.map_filter (\<lambda>c. c) cands)
         \<and> list_all (\<lambda>c. resolve_year cands now \<le> c) (List.map_filter (\<lambda>c. c) cands))
   \<and> resolve_year [Some ''2021'', Some ''2019'', Some ''2023'', None] now = ''2019''
   \<and> resolve_year [None, None, None, None] (strftime_Y y) = strftime_Y y
   \<and> (1000 \<le> y \<and> y \<le> 9999 \<longrightarrow> length (resolve_year [None, None, None, None] (strftime_Y y)) = 4)"
  using resolve_year_min [of cands now] resolve_year_none [of cands now]
  by (simp add: strftime_Y_four resolve_year_def)

text \<open>C2 at the year 2026 and at the candidates 2021 and 2019.\<close>

theorem resolve_year_lex_min_witness:
  "(1000::nat) \<le> 2026 \<and> (2026::nat) \<le> 9999
   \<and> resolve_year [None, None, None, None] (strftime_Y 2026) = ''2026''
   \<and> length (resolve_year [None, None, None, None] (strftime_Y 2026)) = 4
   \<and> resolve_year [None, Some ''2021'', Some ''2019'', None] ''2026'' = ''2019''"
  using resolve_year_lex_min [of "[None, Some ''2021'', Some ''2019'', None]" "''2026''" 2026]
  by (simp add: resolve_year_def strftime_Y.simps digit_chr_def)

subsection \<open>C1: each URL is enqueued and dequeued at most once\<close>

lemma enqueued_append [simp]: "enqueued (xs @ ys) = enqueued xs @ enqueued ys"
  by (induction xs rule: enqueued.induct) auto

lemma dequeued_append [simp]: "dequeued (xs @ ys) = dequeued xs @ dequeued ys"
  by (induction xs rule: dequeued.induct) auto

lemma emit_simps [simp]:
  "redis (emit ev st) = redis st" "files (emit ev st) = files st"
  "trace (emit ev st) = trace st @ [ev]" "allowed_domains (emit ev st) = allowed_domains st"
  by (simp_all add: emit_def)

lemma sismember_typed:
  "typed r \<Longrightarrow> r_sismember r ''seen_urls'' u = Inr (u \<in> seen_of r)"
  unfolding typed_def r_sismember_def seen_of_def
  by (cases "r ''seen_urls''") (auto split: redis_value.splits)

lemma rpush_typed:
  "typed r \<Longrightarrow> \<exists>r'. r_rpush r ''url_queue'' u = Inr r' \<and> typed r'
     \<and> queue_of r' = queue_of r @ [u] \<and> seen_of r' = seen_of r"
  unfolding typed_def r_rpush_def seen_of_def queue_of_def
  by (cases "r ''url_queue''") (auto split: redis_value.splits)

lemma lpush_typed:
  "typed r \<Longrightarrow> \<exists>r'. r_lpush r ''url_queue'' u = Inr r' \<and> typed r'
     \<and> queue_of r' = u # queue_of r \<and> seen_of r' = seen_of r"
  unfolding typed_def r_lpush_def seen_of_def queue_of_def
  by (cases "r ''url_queue''") (auto split: redis_value.splits)

lemma sadd_typed:
  "typed r \<Longrightarrow> \<exists>r'. r_sadd r ''seen_urls'' u = Inr r' \<and> typed r'
     \<and> queue_of r' = queue_of r \<and> seen_of r' = insert u (seen_of r)"
  unfolding typed_def r_sadd_def seen_of_def queue_of_def
  by (cases "r ''seen_urls''") (auto split: redis_value.splits)

lemma lpop_typed:
  "typed r \<Longrightarrow> \<exists>r'. r_lpop r ''url_queue'' =
       Inr (case queue_of r of [] \<Rightarrow> None | x # xs \<Rightarrow> Some x, r') \<and> typed r'
     \<and> queue_of r' = tl (queue_of r) \<and> seen_of r' = seen_of r"
  unfolding typed_def r_lpop_def seen_of_def queue_of_def
  by (cases "r ''url_queue''") (auto split: redis_value.splits list.splits)

lemma log_push_frame:
  "r_lpush r ''downloaded_files'' v = Inr r' \<Longrightarrow>
   typed r' = typed r \<and> queue_of r' = queue_of r \<and> seen_of r' = seen_of r"
  unfolding typed_def r_lpush_def seen_of_def queue_of_def
  by (cases "r ''downloaded_files''") (auto split: redis_value.splits)

lemma frontier_inv_push:
  assumes "frontier_inv st" "u \<notin> seen_of (redis st)" "typed r2"
    "queue_of r2 = queue_of (redis st) @ [u] \<or> queue_of r2 = u # queue_of (redis st)"
    "seen_of r2 = insert u (seen_of (redis st))"
    "enqueued [ev] = [u]" "dequeued [ev] = []"
  shows "frontier_inv (emit ev (st\<lparr>redis := r2\<rparr>))"
  using assms unfolding frontier_inv_def by auto

lemma frontier_inv_frame:
  assumes "frontier_inv st" "typed (redis st') = typed (redis st)"
    "queue_of (redis st') = queue_of (redis st)" "seen_of (redis st') = seen_of (redis st)"
    "enqueued (trace st') = enqueued (trace st)" "dequeued (trace st') = dequeued (trace st)"
  shows "frontier_inv st'"
  using assms unfolding frontier_inv_def by simp

lemma enqueue_links_inv:
  "frontier_inv st \<Longrightarrow> frontier_inv (snd (enqueue_links st links))"
proof (induction links arbitrary: st)
  case Nil
  then show ?case by simp
next
  case (Cons link links)
  have ty: "typed (redis st)" using Cons.prems by (simp add: frontier_inv_def)
  show ?case
  proof (cases "link \<in> seen_of (redis st)")
    case True
    then show ?thesis using Cons ty by (simp add: sismember_typed)
  next
    case False
    obtain r1 where r1: "r_rpush (redis st) ''url_queue'' link = Inr r1" "typed r1"
      "queue_of r1 = queue_of (redis st) @ [link]" "seen_of r1 = seen_of (redis st)"
      using rpush_typed [OF ty] by blast
    obtain r2 where r2: "r_sadd r1 ''seen_urls'' link = Inr r2" "typed r2"
      "queue_of r2 = queue_of r1" "seen_of r2 = insert link (seen_of r1)"
      using sadd_typed [OF r1(2)] by blast
    have "frontier_inv (emit (Added link) (st\<lparr>redis := r2\<rparr>))"
      by (rule frontier_inv_push [OF Cons.prems False r2(2)]) (simp_all add: r1 r2)
    then have "frontier_inv (snd (enqueue_links (emit (Added link) (st\<lparr>redis := r2\<rparr>)) links))"
      by (rule Cons.IH)
    then show ?thesis using False ty r1 r2 by (simp add: sismember_typed)
  qed
qed

lemma seed_urls_inv:
  "frontier_inv st \<Longrightarrow> frontier_inv (snd (seed_urls st urls))"
proof (induction urls arbitrary: st)
  case Nil
  then show ?case by simp
next
  case (Cons url urls)
  have ty: "typed (redis st)" using Cons.prems by (simp add: frontier_inv_def)
  show ?case
  proof (cases "url = [] \<or> url \<in> seen_of (redis st)")
    case True
    then show ?thesis using Cons ty by (auto simp: sismember_typed)
  next
    case False
    then have ne: "url \<noteq> []" and fresh: "url \<notin> seen_of (redis st)" by auto
    obtain r1 where r1:
      "(if endswith (lower url) ''.pdf'' then r_lpush (redis st) ''url_queue'' url
        else r_rpush (redis st) ''url_queue'' url) = Inr r1" "typed r1"
      "queue_of r1 = queue_of (redis st) @ [url] \<or> queue_of r1 = url # queue_of (redis st)"
      "seen_of r1 = seen_of (redis st)"
      using rpush_typed [OF ty, of url] lpush_typed [OF ty, of url]
      by (cases "endswith (lower url) ''.pdf''") auto
    obtain r2 where r2: "r_sadd r1 ''seen_urls'' url = Inr r2" "typed r2"
      "queue_of r2 = queue_of r1" "seen_of r2 = insert url (seen_of r1)"
      using sadd_typed [OF r1(2)] by blast
    have "frontier_inv (emit (Seeded url) (st\<lparr>redis := r2\<rparr>))"
      by (rule frontier_inv_push [OF Cons.prems fresh r2(2)]) (use r1 r2 in auto)
    then have "frontier_inv (snd (seed_urls (emit (Seeded url) (st\<lparr>redis := r2\<rparr>)) urls))"
      by (rule Cons.IH)
    then show ?thesis using ne fresh ty r1 r2 by (simp add: sismember_typed)
  qed
qed

lemma download_pdf_direct_cases:
  "snd (download_pdf_direct E st url d) = emit (HttpGet url) st
   \<or> (\<exists>fs'. snd (download_pdf_direct E st url d) = (emit (HttpGet url) st)\<lparr>files := fs'\<rparr>)
   \<or> (\<exists>fs' r' v. r_lpush (redis st) ''downloaded_files'' v = Inr r'
        \<and> snd (download_pdf_direct E st url d) = (emit (HttpGet url) st)\<lparr>files := fs', redis := r'\<rparr>)"
  unfolding download_pdf_direct_def log_download_def Let_def
  by (auto split: sum.splits prod.splits)

lemma download_pdf_direct_inv:
  assumes "frontier_inv st"
  shows "frontier_inv (snd (download_pdf_direct E st url d))"
  using download_pdf_direct_cases [of E st url d]
proof (elim disjE exE conjE)
  assume "snd (download_pdf_direct E st url d) = emit (HttpGet url) st"
  then show ?thesis using assms by (auto intro: frontier_inv_frame)
next
  fix fs' assume "snd (download_pdf_direct E st url d) = (emit (HttpGet url) st)\<lparr>files := fs'\<rparr>"
  then show ?thesis using assms by (auto intro: frontier_inv_frame)
next
  fix fs' r' v
  assume a: "r_lpush (redis st) ''downloaded_files'' v = Inr r'"
    "snd (download_pdf_direct E st url d) = (emit (HttpGet url) st)\<lparr>files := fs', redis := r'\<rparr>"
  show ?thesis
    by (rule frontier_inv_frame [OF assms]) (use a log_push_frame [OF a(1)] in simp_all)
qed

lemma fetch_soup_cases:
  "snd (fetch_soup E st url html) = st \<or> snd (fetch_soup E st url html) = emit (HttpGet url) st"
  unfolding fetch_soup_def Let_def by (auto split: sum.splits)

lemma render_and_enqueue_cases:
  "\<exists>st3 links. (st3 = emit (Render url) st \<or> st3 = emit (HttpGet url) (emit (Render url) st))
     \<and> (snd (render_and_enqueue E st url) = st3
        \<or> snd (render_and_enqueue E st url) = snd (enqueue_links st3 links))"
proof -
  let ?f = "fetch_soup E (emit (Render url) st) url (env_render E url)"
  have f: "snd ?f = emit (Render url) st \<or> snd ?f = emit (HttpGet url) (emit (Render url) st)"
    by (rule fetch_soup_cases)
  have "snd (render_and_enqueue E st url) = snd ?f
        \<or> (\<exists>links. snd (render_and_enqueue E st url) = snd (enqueue_links (snd ?f) links))"
    unfolding render_and_enqueue_def Let_def
    apply (cases ?f)
    apply (auto split: sum.splits option.splits prod.splits)
       apply (metis snd_conv)+
    done
  then show ?thesis using f by metis
qed

lemma render_and_enqueue_inv:
  assumes "frontier_inv st"
  shows "frontier_inv (snd (render_and_enqueue E st url))"
proof -
  obtain st3 links where a:
    "st3 = emit (Render url) st \<or> st3 = emit (HttpGet url) (emit (Render url) st)"
    "snd (render_and_enqueue E st url) = st3
     \<or> snd (render_and_enqueue E st url) = snd (enqueue_links st3 links)"
    using render_and_enqueue_cases by blast
  have "frontier_inv st3"
    using a(1) assms by (auto intro!: frontier_inv_frame [OF assms])
  then show ?thesis using a(2) enqueue_links_inv by metis
qed

lemma process_url_preserves:
  assumes D: "\<And>st u. P st \<Longrightarrow> P (emit (Delay u) st)"
    and dl: "\<And>E st url d. P st \<Longrightarrow> P (snd (download_pdf_direct E st url d))"
    and pg: "\<And>E st url. P st \<Longrightarrow> P (snd (render_and_enqueue E st url))"
  shows "P st \<Longrightarrow> P (snd (process_url n E st url))"
    and "P st \<Longrightarrow> P (snd (embedded_loop n E st us))"
proof (induction n E st url and n E st us rule: process_url_embedded_loop.induct)
  case (1 E st url)
  then show ?case by simp
next
  case (2 n E st url)
  show ?case
  proof (cases "get_domain url")
    case (Inl e)
    then show ?thesis using "2.prems" by simp
  next
    case (Inr d)
    let ?st1 = "emit (Delay url) st"
    have p1: "P ?st1" using "2.prems" by (rule D)
    show ?thesis
    proof (cases "endswith (lower url) ''.pdf'' \<or> endswith (lower url) ''.xml''")
      case True
      have "P (snd (download_pdf_direct E ?st1 url d))" using p1 by (rule dl)
      then show ?thesis using Inr True
        by (cases "download_pdf_direct E ?st1 url d") (auto split: sum.splits)
    next
      case False
      have pp: "P (snd (render_and_enqueue E ?st1 url))" using p1 by (rule pg)
      obtain res st4 where r: "render_and_enqueue E ?st1 url = (res, st4)"
        by (cases "render_and_enqueue E ?st1 url")
      have p4: "P st4" using pp r by simp
      show ?thesis
      proof (cases res)
        case (Inl e)
        then show ?thesis using Inr False r p4 by simp
      next
        case (Inr opt)
        note o = this
        show ?thesis
        proof (cases opt)
          case None
          then show ?thesis using \<open>get_domain url = Inr d\<close> False r p4 o by simp
        next
          case (Some docs)
          have "P (snd (embedded_loop n E st4 docs))"
            using "2.IH" [OF \<open>get_domain url = Inr d\<close> refl False r [symmetric] o Some] p4 by simp
          then show ?thesis using \<open>get_domain url = Inr d\<close> False r o Some
            by (cases "embedded_loop n E st4 docs") (auto split: sum.splits)
        qed
      qed
    qed
  qed
next
  case (3 n E st)
  then show ?case by simp
next
  case (4 n E st doc_url rest)
  show ?case
  proof (cases "r_sismember (redis st) ''seen_urls'' doc_url")
    case (Inl e)
    then show ?thesis using "4.prems" by simp
  next
    case (Inr b)
    show ?thesis
    proof (cases b)
      case True
      then show ?thesis using "4.IH"(1) [OF Inr] "4.prems" Inr by simp
    next
      case False
      obtain s st' where ps: "process_url n E st doc_url = (s, st')"
        by (cases "process_url n E st doc_url")
      have "P st'" using "4.IH"(2) [OF Inr] False "4.prems" ps by simp
      then have "P (snd (embedded_loop n E st' rest))"
        using "4.IH"(3) [OF Inr _ ps [symmetric]] False by simp
      then show ?thesis using Inr False ps by simp
    qed
  qed
qed

lemma crawl_loop_preserves:
  assumes pop: "\<And>st x r'. P st \<Longrightarrow> r_lpop (redis st) ''url_queue'' = Inr (x, r') \<Longrightarrow>
      P (case x of None \<Rightarrow> st\<lparr>redis := r'\<rparr> | Some u \<Rightarrow> emit (Dequeued u) (st\<lparr>redis := r'\<rparr>))"
    and W: "\<And>st. P st \<Longrightarrow> P (emit EmptyWait st)"
    and pu: "\<And>st u. P st \<Longrightarrow> P (snd (process_url depth E st u))"
  shows "P st \<Longrightarrow> P (snd (crawl_loop k depth E st))"
proof (induction k arbitrary: st)
  case 0
  then show ?case by simp
next
  case (Suc k)
  show ?case
  proof (cases "r_lpop (redis st) ''url_queue''")
    case (Inl e)
    then show ?thesis using Suc.prems by simp
  next
    case (Inr res)
    obtain x r' where res: "res = (x, r')" by (cases res)
    note p = pop [OF Suc.prems Inr [unfolded res]]
    show ?thesis
    proof (cases x)
      case None
      then have "P (emit EmptyWait (st\<lparr>redis := r'\<rparr>))" using p W by simp
      then show ?thesis using Inr res None Suc.IH by simp
    next
      case (Some u)
      then have p1: "P (emit (Dequeued u) (st\<lparr>redis := r'\<rparr>))" using p by simp
      show ?thesis
      proof (cases "u = []")
        case True
        have "P (emit EmptyWait (emit (Dequeued u) (st\<lparr>redis := r'\<rparr>)))" using p1 by (rule W)
        then show ?thesis using Inr res Some True Suc.IH by (simp add: Let_def)
      next
        case False
        have "P (snd (process_url depth E (emit (Dequeued u) (st\<lparr>redis := r'\<rparr>)) (strip u)))"
          using p1 by (rule pu)
        then show ?thesis using Inr res Some False Suc.IH
          by (cases "process_url depth E (emit (Dequeued u) (st\<lparr>redis := r'\<rparr>)) (strip u)")
            (simp add: Let_def)
      qed
    qed
  qed
qed

lemma frontier_inv_pop:
  assumes "frontier_inv st" "r_lpop (redis st) ''url_queue'' = Inr (x, r')"
  shows "frontier_inv (case x of None \<Rightarrow> st\<lparr>redis := r'\<rparr> | Some u \<Rightarrow> emit (Dequeued u) (st\<lparr>redis := r'\<rparr>))"
proof -
  have ty: "typed (redis st)" using assms(1) by (simp add: frontier_inv_def)
  obtain r'' where r: "r_lpop (redis st) ''url_queue'' =
       Inr (case queue_of (redis st) of [] \<Rightarrow> None | x # xs \<Rightarrow> Some x, r'')" "typed r''"
     "queue_of r'' = tl (queue_of (redis st))" "seen_of r'' = seen_of (redis st)"
    using lpop_typed [OF ty] by blast
  have x: "x = (case queue_of (redis st) of [] \<Rightarrow> None | x # xs \<Rightarrow> Some x)" and r': "r' = r''"
    using r(1) assms(2) by simp_all
  show ?thesis
    using assms(1) r(2-4) x r' unfolding frontier_inv_def
    by (cases "queue_of (redis st)") auto
qed

lemma process_url_inv: "frontier_inv st \<Longrightarrow> frontier_inv (snd (process_url n E st url))"
proof (rule process_url_preserves(1) [where P = frontier_inv])
  show "\<And>st u. frontier_inv st \<Longrightarrow> frontier_inv (emit (Delay u) st)"
    by (erule frontier_inv_frame) simp_all
qed (auto intro: download_pdf_direct_inv render_and_enqueue_inv)

lemma crawl_loop_inv: "frontier_inv st \<Longrightarrow> frontier_inv (snd (crawl_loop k depth E st))"
proof (rule crawl_loop_preserves [where P = frontier_inv])
  show "\<And>st. frontier_inv st \<Longrightarrow> frontier_inv (emit EmptyWait st)"
    by (erule frontier_inv_frame) simp_all
qed (auto intro: frontier_inv_pop process_url_inv)

lemma reset_typed: "typed (reset r) \<and> queue_of (reset r) = [] \<and> seen_of (reset r) = {}"
  by (simp add: reset_def r_delete_def typed_def queue_of_def seen_of_def)

lemma run_inv: "frontier_inv (snd (run k depth E lines r fs))"
proof -
  let ?st0 = "\<lparr> redis = reset r, files = fs, trace = [], allowed_domains = {} \<rparr>"
  have i0: "frontier_inv ?st0" by (simp add: frontier_inv_def reset_typed)
  show ?thesis
  proof (cases "seed_domains (map strip lines)")
    case (Inl e)
    then show ?thesis using i0 by (simp add: run_def)
  next
    case (Inr ds)
    have "frontier_inv (?st0\<lparr>allowed_domains := ds\<rparr>)"
      by (rule frontier_inv_frame [OF i0]) simp_all
    then have i1: "frontier_inv (snd (seed_urls (?st0\<lparr>allowed_domains := ds\<rparr>) (map strip lines)))"
      by (rule seed_urls_inv)
    show ?thesis
    proof (cases "seed_urls (?st0\<lparr>allowed_domains := ds\<rparr>) (map strip lines)")
      case (Pair res st1)
      then have "frontier_inv st1" using i1 by simp
      then show ?thesis using Inr Pair crawl_loop_inv [of st1 k depth E]
        by (cases res) (simp_all add: run_def)
    qed
  qed
qed

text \<open>
  C1: in every run (any seed lines, any outside world, any number of iterations of the
  crawl loop), no URL is added to the queue twice and no URL is popped from it twice; every
  URL popped was added, and the seen set is the set of the URLs added.
\<close>

theorem each_url_enqueued_and_dequeued_once:
  "distinct (enqueued (trace (snd (run k depth E lines r fs))))
   \<and> distinct (dequeued (trace (snd (run k depth E lines r fs))))
   \<and> set (dequeued (trace (snd (run k depth E lines r fs))))
       \<subseteq> set (enqueued (trace (snd (run k depth E lines r fs))))
   \<and> seen_of (redis (snd (run k depth E lines r fs)))
       = set (enqueued (trace (snd (run k depth E lines r fs))))"
  using run_inv [of k depth E lines r fs] unfolding frontier_inv_def by auto

subsection \<open>C10: the reset leaves the download log\<close>

text \<open>
  C10: the reset removes the keys \<open>url_queue\<close> and \<open>seen_urls\<close> and changes no other key;
  the key \<open>downloaded_files\<close>, and so the download log, is as before.
\<close>

theorem reset_keeps_download_log:
  "reset r ''downloaded_files'' = r ''downloaded_files''
   \<and> reset r k = (if k = ''url_queue'' \<or> k = ''seen_urls'' then None else r k)
   \<and> log_of (reset r) = log_of r"
  by (simp add: reset_def r_delete_def log_of_def)

subsection \<open>C5: where an enqueue places a URL\<close>

lemmas str_eval = lower_def lower_chr_def endswith_def

text \<open>
  C5 as stated: a direct-document URL (ending in \<open>.pdf\<close> or \<open>.xml\<close>) goes to the head,
  for seeds and for discovered links. It does not: a discovered \<open>.pdf\<close> link goes to the
  tail, and so does a seed ending in \<open>.xml\<close>.
\<close>

theorem discovered_pdf_goes_to_tail:
  "queue_of (redis (snd (enqueue_links (fresh one_page_queued) [''https://example.com/a.pdf'']))) =
     [''https://example.com/page'', ''https://example.com/a.pdf'']
   \<and> queue_of (redis (snd (seed_urls (fresh one_page_queued) [''https://example.com/feed.xml'']))) =
     [''https://example.com/page'', ''https://example.com/feed.xml'']"
  by (simp add: fresh_def one_page_queued_def r_sismember_def r_rpush_def r_sadd_def r_lpush_def
      queue_of_def emit_def str_eval)

text \<open>
  C5, amended: on a typed store, a seed that is not empty and not seen goes to the head of
  the queue when its lower-cased form ends in \<open>.pdf\<close> and to the tail otherwise; a
  discovered link that is not seen goes to the tail, whatever its extension; a seen URL
  leaves the queue as it is.
\<close>

theorem enqueue_positions:
  assumes "typed (redis st)"
  shows "queue_of (redis (snd (seed_urls st [url]))) =
           (if url = [] \<or> url \<in> seen_of (redis st) then queue_of (redis st)
            else if endswith (lower url) ''.pdf'' then url # queue_of (redis st)
            else queue_of (redis st) @ [url])
         \<and> queue_of (redis (snd (enqueue_links st [link]))) =
           (if link \<in> seen_of (redis st) then queue_of (redis st)
            else queue_of (redis st) @ [link])"
proof -
  note ty = assms
  have seed: "queue_of (redis (snd (seed_urls st [url]))) =
           (if url = [] \<or> url \<in> seen_of (redis st) then queue_of (redis st)
            else if endswith (lower url) ''.pdf'' then url # queue_of (redis st)
            else queue_of (redis st) @ [url])"
  proof (cases "url = [] \<or> url \<in> seen_of (redis st)")
    case True
    then show ?thesis using ty by (auto simp: sismember_typed)
  next
    case False
    obtain r1 where r1: "r_lpush (redis st) ''url_queue'' url = Inr r1" "typed r1"
      "queue_of r1 = url # queue_of (redis st)"
      using lpush_typed [OF ty] by blast
    obtain r1' where r1': "r_rpush (redis st) ''url_queue'' url = Inr r1'" "typed r1'"
      "queue_of r1' = queue_of (redis st) @ [url]"
      using rpush_typed [OF ty] by blast
    obtain r2 where r2: "r_sadd r1 ''seen_urls'' url = Inr r2" "queue_of r2 = queue_of r1"
      using sadd_typed [OF r1(2)] by blast
    obtain r2' where r2': "r_sadd r1' ''seen_urls'' url = Inr r2'" "queue_of r2' = queue_of r1'"
      using sadd_typed [OF r1'(2)] by blast
    show ?thesis using False ty r1 r1' r2 r2' by (simp add: sismember_typed)
  qed
  have link: "queue_of (redis (snd (enqueue_links st [link]))) =
           (if link \<in> seen_of (redis st) then queue_of (redis st)
            else queue_of (redis st) @ [link])"
  proof (cases "link \<in> seen_of (redis st)")
    case True
    then show ?thesis using ty by (simp add: sismember_typed)
  next
    case False
    obtain r1' where r1': "r_rpush (redis st) ''url_queue'' link = Inr r1'" "typed r1'"
      "queue_of r1' = queue_of (redis st) @ [link]"
      using rpush_typed [OF ty] by blast
    obtain r2' where r2': "r_sadd r1' ''seen_urls'' link = Inr r2'" "queue_of r2' = queue_of r1'"
      using sadd_typed [OF r1'(2)] by blast
    show ?thesis using False ty r1' r2' by (simp add: sismember_typed)
  qed
  show ?thesis using seed link by simp
qed

text \<open>C5, amended, at a seed and at a link \<open>Doc.PDF\<close> with one page queued.\<close>

theorem enqueue_positions_witness:
  "typed one_page_queued
   \<and> queue_of (redis (snd (seed_urls (fresh one_page_queued) [''https://example.com/Doc.PDF'']))) =
       [''https://example.com/Doc.PDF'', ''https://example.com/page'']
   \<and> queue_of (redis (snd (enqueue_links (fresh one_page_queued) [''https://example.com/Doc.PDF'']))) =
       [''https://example.com/page'', ''https://example.com/Doc.PDF'']"
proof -
  have ty: "typed (redis (fresh one_page_queued))"
    by (simp add: fresh_def one_page_queued_def typed_def)
  have q: "queue_of (redis (fresh one_page_queued)) = [''https://example.com/page'']"
    and s: "seen_of (redis (fresh one_page_queued)) = {''https://example.com/page''}"
    by (simp_all add: fresh_def one_page_queued_def queue_of_def seen_of_def)
  show ?thesis
    using enqueue_positions [OF ty, of "''https://example.com/Doc.PDF''" "''https://example.com/Doc.PDF''"] ty
    by (simp add: fresh_def one_page_queued_def r_sismember_def r_rpush_def r_sadd_def r_lpush_def
        queue_of_def seen_of_def emit_def str_eval)
qed

subsection \<open>C6: the accept gate\<close>

lemma contains_sublist: "contains s k = sublist k s"
  by (induction s) (auto simp: sublist_Cons_right)

lemma check_copyright_sublist:
  "check_copyright body = list_ex (\<lambda>k. sublist k (lower body)) copyright_keywords"
  by (simp add: check_copyright_def contains_sublist)

text \<open>
  C6 as stated: for the declared type \<open>application/pdf\<close> the gate returns False when the
  document is encrypted or its first pages hold a keyword, and True otherwise. It does not:
  content that the PDF library cannot open is neither, and is rejected.
\<close>

theorem unreadable_pdf_is_rejected:
  "\<not> (\<forall>E url content.
        (case env_fitz_stream E content of
           Inr doc \<Rightarrow> doc_encrypted doc \<or> check_copyright (first_pages_text doc)
         | Inl e \<Rightarrow> False)
        \<or> should_download E url ''application/pdf'' content)"
proof
  assume a: "\<forall>E url content.
        (case env_fitz_stream E content of
           Inr doc \<Rightarrow> doc_encrypted doc \<or> check_copyright (first_pages_text doc)
         | Inl e \<Rightarrow> False)
        \<or> should_download E url ''application/pdf'' content"
  have "(case env_fitz_stream offline [] of
           Inr doc \<Rightarrow> doc_encrypted doc \<or> check_copyright (first_pages_text doc)
         | Inl e \<Rightarrow> False)
        \<or> should_download offline ''https://example.com/doc.pdf'' ''application/pdf'' []"
    using a by blast
  then show False by (simp add: offline_def should_download_def)
qed

text \<open>
  C6, amended: the gate returns True only for a declared type of the supported set
  (\<open>application/pdf\<close>, \<open>text/xml\<close>, \<open>application/xml\<close>, \<open>text/html\<close>); for
  \<open>application/pdf\<close> it returns False when the content cannot be opened as a PDF, when the
  document is encrypted, or when the lower-cased text of its first three pages contains
  \<open>copyright\<close>, the copyright sign or \<open>all rights reserved\<close>, and True otherwise; for any
  other type it returns whether the type is supported.
\<close>

theorem should_download_gate:
  "should_download E url content_type content =
     (if content_type = ''application/pdf''
      then (case env_fitz_stream E content of
              Inl e \<Rightarrow> False
            | Inr doc \<Rightarrow>
                \<not> doc_encrypted doc
                \<and> \<not> list_ex (\<lambda>k. sublist k (lower (first_pages_text doc))) copyright_keywords)
      else content_type \<in> set SUPPORTED_TYPES)
   \<and> (should_download E url content_type content \<longrightarrow> content_type \<in> set SUPPORTED_TYPES)
   \<and> set SUPPORTED_TYPES = {''application/pdf'', ''text/xml'', ''application/xml'', ''text/html''}
   \<and> copyright_keywords = [''copyright'', [CHR 0xC2, CHR 0xA9], ''all rights reserved'']"
  by (auto simp: should_download_def check_copyright_sublist SUPPORTED_TYPES_def
      copyright_keywords_def split: sum.splits)

lemmas gate_eval =
  should_download_def reading_def offline_def notice_pdf_def plain_pdf_def check_copyright_def
  copyright_keywords_def first_pages_text_def lower_def lower_chr_def SUPPORTED_TYPES_def

text \<open>C6, amended, at a plain PDF, a PDF with a rights notice, and unreadable content.\<close>

theorem should_download_gate_witness:
  "should_download (reading plain_pdf) ''u'' ''application/pdf'' ''%PDF-''
   \<and> ''application/pdf'' \<in> set SUPPORTED_TYPES
   \<and> \<not> should_download (reading notice_pdf) ''u'' ''application/pdf'' ''%PDF-''
   \<and> \<not> should_download offline ''u'' ''application/pdf'' ''%PDF-''
   \<and> \<not> should_download offline ''u'' ''text/plain'' ''hello''"
  using should_download_gate [of "reading plain_pdf" "''u''" "''application/pdf''" "''%PDF-''"]
  by (simp add: gate_eval)

subsection \<open>C8: the size floor of the storage writer\<close>

lemma getsize_written:
  "write_file fs p d = Inr fs2 \<Longrightarrow> getsize fs2 p = Inr (length d) \<and> remove fs2 p = Inr (fs2(components p := None))"
  by (auto simp: write_file_def getsize_def remove_def is_file_def Let_def split: if_splits)

lemma makedirs_dirs:
  "makedirs fs p = Inr fs1 \<Longrightarrow>
   (fs1 k = Some Dir \<longrightarrow> fs k = Some Dir \<or> k \<in> set (tl (prefixes (components p))))
   \<and> (fs1 k = Some (File d) \<longrightarrow> fs k = Some (File d))"
  by (auto simp: makedirs_def Let_def split: if_splits)

lemma write_file_upd:
  "write_file fs p d = Inr fs2 \<Longrightarrow> fs2 = fs(components p \<mapsto> File d)"
  by (auto simp: write_file_def Let_def split: if_splits)

lemma save_file_small_eq:
  assumes "length content < 50"
  shows "save_file E fs content domain url ct =
     ((None, None),
      case makedirs fs (path_join (env_output_dir E) domain) of
        Inl e \<Rightarrow> fs
      | Inr fs1 \<Rightarrow>
          (case urlparse url of
             Inl e \<Rightarrow> fs1
           | Inr parsed \<Rightarrow>
               (case write_file fs1 (path_join (path_join (env_output_dir E) domain) ''temp_download'') content of
                  Inl e \<Rightarrow> fs1
                | Inr fs2 \<Rightarrow>
                    fs2(components (path_join (path_join (env_output_dir E) domain) ''temp_download'') := None))))"
proof (cases "makedirs fs (path_join (env_output_dir E) domain)")
  case (Inl e)
  then show ?thesis by (simp add: save_file_def)
next
  case (Inr fs1)
  note m = this
  show ?thesis
  proof (cases "urlparse url")
    case (Inl e)
    then show ?thesis using m by (simp add: save_file_def)
  next
    case (Inr parsed)
    note u = this
    show ?thesis
    proof (cases "write_file fs1 (path_join (path_join (env_output_dir E) domain) ''temp_download'') content")
      case (Inl e)
      then show ?thesis using m u by (simp add: save_file_def)
    next
      case (Inr fs2)
      then show ?thesis using m u assms getsize_written [OF Inr]
        by (simp add: save_file_def)
    qed
  qed
qed

lemma save_file_small:
  assumes "length content < 50"
  shows "fst (save_file E fs content domain url ct) = (None, None)"
    and "snd (save_file E fs content domain url ct) k = Some Dir \<Longrightarrow>
         fs k = Some Dir \<or> k \<in> set (tl (prefixes (components (path_join (env_output_dir E) domain))))"
    and "snd (save_file E fs content domain url ct) k = Some (File d) \<Longrightarrow> fs k = Some (File d)"
proof -
  show "fst (save_file E fs content domain url ct) = (None, None)"
    by (simp add: save_file_small_eq [OF assms])
  show "snd (save_file E fs content domain url ct) k = Some Dir \<Longrightarrow>
         fs k = Some Dir \<or> k \<in> set (tl (prefixes (components (path_join (env_output_dir E) domain))))"
    unfolding save_file_small_eq [OF assms]
    by (auto split: sum.splits if_splits dest!: write_file_upd dest: makedirs_dirs [where k = k])
  show "snd (save_file E fs content domain url ct) k = Some (File d) \<Longrightarrow> fs k = Some (File d)"
    unfolding save_file_small_eq [OF assms]
    by (auto split: sum.splits if_splits dest!: write_file_upd dest: makedirs_dirs [where k = k and d = d])
qed

lemma extract_year_from_url_parsed:
  "urlparse url = Inr parsed \<Longrightarrow> \<exists>y. extract_year_from_url url = Inr y"
  by (simp add: extract_year_from_url_def split: option.splits)

lemma rename_result:
  assumes "rename fs3 src dst = Inr fs4"
  shows "\<exists>d. fs3 (components src) = Some (File d) \<and> fs4 (components dst) = Some (File d)"
  using assms by (auto simp: rename_def split: option.splits node.splits if_splits)

lemma makedirs_keeps_file:
  assumes "makedirs fs2 p = Inr fs3" "fs3 k = Some (File d)"
  shows "fs2 k = Some (File d)"
  using assms by (auto simp: makedirs_def Let_def split: if_splits)

text \<open>
  C8: content of fewer than 50 bytes is rejected: \<open>save_file\<close> returns \<open>(None, None)\<close>,
  every directory there is afterwards was there before or is the domain directory or one
  above it, and every file there is afterwards was there before, unchanged (the temporary
  file is gone). Content of 50 bytes or more passes the floor: where the file system calls
  succeed, the result is the path \<open><root>/<domain>/<year>/<filename>\<close> with the resolved
  year, and the content is the file at that path.
\<close>

theorem save_file_size_floor:
  fixes E :: env and fs :: filesystem and content domain url ct :: string
    and parsed :: parsed_url
  defines "domain_dir \<equiv> path_join (env_output_dir E) domain"
  defines "temp_path \<equiv> path_join (path_join (env_output_dir E) domain) ''temp_download''"
  defines "year \<equiv> resolve_year
                     [extract_year_from_pdf E content, extract_year_from_content E content,
                      (case extract_year_from_url url of Inr y \<Rightarrow> y | Inl e \<Rightarrow> None),
                      extract_year_from_filename (derive_filename E url ct parsed)]
                     (strftime_Y (env_now_year E))"
  defines "final_path \<equiv> path_join (path_join domain_dir year) (derive_filename E url ct parsed)"
  shows "(length content < 50 \<longrightarrow>
            fst (save_file E fs content domain url ct) = (None, None)
            \<and> (\<forall>k. snd (save_file E fs content domain url ct) k = Some Dir \<longrightarrow>
                   fs k = Some Dir \<or> k \<in> set (tl (prefixes (components domain_dir))))
            \<and> (\<forall>k d. snd (save_file E fs content domain url ct) k = Some (File d) \<longrightarrow>
                   fs k = Some (File d)))
         \<and> (50 \<le> length content
            \<and> makedirs fs domain_dir = Inr fs1 \<and> urlparse url = Inr parsed
            \<and> write_file fs1 temp_path content = Inr fs2
            \<and> makedirs fs2 (path_join domain_dir year) = Inr fs3
            \<and> rename fs3 temp_path final_path = Inr fs4 \<longrightarrow>
            save_file E fs content domain url ct = ((Some final_path, Some year), fs4)
            \<and> fs4 (components final_path) = Some (File content))"
proof (intro conjI impI allI)
  assume s: "length content < 50"
  show "fst (save_file E fs content domain url ct) = (None, None)"
    by (rule save_file_small(1) [OF s])
  show "snd (save_file E fs content domain url ct) k = Some Dir \<Longrightarrow>
        fs k = Some Dir \<or> k \<in> set (tl (prefixes (components domain_dir)))" for k
    unfolding domain_dir_def by (rule save_file_small(2) [OF s])
  show "snd (save_file E fs content domain url ct) k = Some (File d) \<Longrightarrow> fs k = Some (File d)" for k d
    by (rule save_file_small(3) [OF s])
next
  assume a: "50 \<le> length content
            \<and> makedirs fs domain_dir = Inr fs1 \<and> urlparse url = Inr parsed
            \<and> write_file fs1 temp_path content = Inr fs2
            \<and> makedirs fs2 (path_join domain_dir year) = Inr fs3
            \<and> rename fs3 temp_path final_path = Inr fs4"
  obtain y where y: "extract_year_from_url url = Inr y"
    using extract_year_from_url_parsed a by blast
  have w: "write_file fs1 (path_join (path_join (env_output_dir E) domain) ''temp_download'') content = Inr fs2"
    using a by (simp add: temp_path_def)
  show "save_file E fs content domain url ct = ((Some final_path, Some year), fs4)"
    using a y getsize_written [OF w]
    unfolding save_file_def Let_def domain_dir_def temp_path_def year_def final_path_def
    by simp
  obtain d where d: "fs3 (components temp_path) = Some (File d)"
    "fs4 (components final_path) = Some (File d)"
    using rename_result a by blast
  have "fs2 (components temp_path) = Some (File d)"
    using makedirs_keeps_file a d(1) by blast
  moreover have "fs2 (components temp_path) = Some (File content)"
    using write_file_upd [OF w] by (simp add: temp_path_def)
  ultimately show "fs4 (components final_path) = Some (File content)" using d(2) by simp
qed


lemma not_isl_projr: "\<not> isl x \<Longrightarrow> x = Inr (projr x)"
  by (cases x) simp_all

text \<open>C8 at 49 and at 50 bytes, on an empty file system.\<close>

theorem save_file_size_floor_witness:
  "length bytes49 < 50
   \<and> fst (save_file offline no_files bytes49 ''example.com'' ''https://example.com/2022/doc.pdf''
          ''application/pdf'') = (None, None)
   \<and> snd (save_file offline no_files bytes49 ''example.com'' ''https://example.com/2022/doc.pdf''
          ''application/pdf'') [''data'', ''raw'', ''example.com'', ''temp_download''] = None
   \<and> snd (save_file offline no_files bytes49 ''example.com'' ''https://example.com/2022/doc.pdf''
          ''application/pdf'') [''data'', ''raw'', ''example.com'', ''2022''] = None
   \<and> 50 \<le> length bytes50
   \<and> fst (save_file offline no_files bytes50 ''example.com'' ''https://example.com/2022/doc.pdf''
          ''application/pdf'') = (Some ''/data/raw/example.com/2022/doc.pdf'', Some ''2022'')
   \<and> snd (save_file offline no_files bytes50 ''example.com'' ''https://example.com/2022/doc.pdf''
          ''application/pdf'') [''data'', ''raw'', ''example.com'', ''2022'', ''doc.pdf'']
       = Some (File bytes50)"
proof -
  let ?u = "''https://example.com/2022/doc.pdf''"
  let ?dd = "path_join (env_output_dir offline) ''example.com''"
  let ?tp = "path_join ?dd ''temp_download''"
  let ?yd = "path_join ?dd ''2022''"
  let ?fp = "path_join ?yd ''doc.pdf''"
  let ?p = "projr (urlparse ?u)"
  let ?f1 = "projr (makedirs no_files ?dd)"
  let ?f2 = "projr (write_file ?f1 ?tp bytes50)"
  let ?f3 = "projr (makedirs ?f2 ?yd)"
  let ?f4 = "projr (rename ?f3 ?tp ?fp)"
  have l49: "length bytes49 < 50" and l50: "50 \<le> length bytes50"
    by (simp_all add: bytes49_def bytes50_def)
  have ok: "\<not> isl (makedirs no_files ?dd)" "\<not> isl (urlparse ?u)"
    "\<not> isl (write_file ?f1 ?tp bytes50)" "\<not> isl (makedirs ?f2 ?yd)"
    "\<not> isl (rename ?f3 ?tp ?fp)"
    by code_simp+
  have yr: "resolve_year
                     [extract_year_from_pdf offline bytes50, extract_year_from_content offline bytes50,
                      (case extract_year_from_url ?u of Inr y \<Rightarrow> y | Inl e \<Rightarrow> None),
                      extract_year_from_filename ''doc.pdf'']
                     (strftime_Y (env_now_year offline)) = ''2022''"
    and fn: "derive_filename offline ?u ''application/pdf'' ?p = ''doc.pdf''"
    and fp: "?fp = ''/data/raw/example.com/2022/doc.pdf''"
    and cfp: "components ?fp = [''data'', ''raw'', ''example.com'', ''2022'', ''doc.pdf'']"
    by code_simp+
  have small_dirs: "[''data'', ''raw'', ''example.com'', ''2022'']
       \<notin> set (tl (prefixes (components ?dd)))"
    and empty: "no_files [''data'', ''raw'', ''example.com'', ''2022''] = None"
      "no_files [''data'', ''raw'', ''example.com'', ''temp_download''] = None"
    by code_simp+
  note T = save_file_size_floor [where E = offline and fs = no_files
      and domain = "''example.com''" and url = ?u and ct = "''application/pdf''"]
  note small = T [where content = bytes49, THEN conjunct1, rule_format, OF l49]
  note large = T [where content = bytes50 and parsed = ?p and ?fs1.0 = ?f1 and ?fs2.0 = ?f2
      and ?fs3.0 = ?f3 and ?fs4.0 = ?f4, THEN conjunct2]
  have hyp: "makedirs no_files ?dd = Inr ?f1" "urlparse ?u = Inr ?p"
    "write_file ?f1 ?tp bytes50 = Inr ?f2" "makedirs ?f2 ?yd = Inr ?f3"
    "rename ?f3 ?tp ?fp = Inr ?f4"
    by (rule not_isl_projr, rule ok)+
  have res: "save_file offline no_files bytes50 ''example.com'' ?u ''application/pdf''
        = ((Some ?fp, Some ''2022''), ?f4) \<and> ?f4 (components ?fp) = Some (File bytes50)"
    using large l50 hyp unfolding fn yr by blast
  let ?s = "snd (save_file offline no_files bytes49 ''example.com'' ?u ''application/pdf'')"
  have nd: "?s [''data'', ''raw'', ''example.com'', ''2022''] \<noteq> Some Dir"
    using small [THEN conjunct2, THEN conjunct1, rule_format, of "[''data'', ''raw'', ''example.com'', ''2022'']"]
      small_dirs empty by auto
  have nf: "?s k \<noteq> Some (File d)" for k d
    using small [THEN conjunct2, THEN conjunct2, rule_format, of k d] by (auto simp: no_files_def)
  have none: "?s k \<noteq> Some Dir \<Longrightarrow> ?s k = None" for k
    using nf [of k] by (cases "?s k") (auto intro: node.exhaust)
  have tmp: "?s [''data'', ''raw'', ''example.com'', ''temp_download''] = None"
  proof (rule none)
    show "?s [''data'', ''raw'', ''example.com'', ''temp_download''] \<noteq> Some Dir"
      using small [THEN conjunct2, THEN conjunct1, rule_format, of "[''data'', ''raw'', ''example.com'', ''temp_download'']"]
      by (auto simp: no_files_def) code_simp
  qed
  have r1: "fst (save_file offline no_files bytes50 ''example.com'' ?u ''application/pdf'')
        = (Some ''/data/raw/example.com/2022/doc.pdf'', Some ''2022'')"
    using res by (simp add: fp)
  have "snd (save_file offline no_files bytes50 ''example.com'' ?u ''application/pdf'')
        (components ?fp) = Some (File bytes50)"
    using res by simp
  then have r2: "snd (save_file offline no_files bytes50 ''example.com'' ?u ''application/pdf'')
        [''data'', ''raw'', ''example.com'', ''2022'', ''doc.pdf''] = Some (File bytes50)"
    unfolding cfp .
  show ?thesis
    using l49 l50 small [THEN conjunct1] none [OF nd] tmp r1 r2 by blast
qed

subsection \<open>C3: the politeness gate and the fetch\<close>

text \<open>
  No run requests a \<open>robots.txt\<close>: \<open>can_fetch\<close> is called nowhere.
\<close>

lemma robots_checks_append [simp]: "robots_checks (xs @ ys) = robots_checks xs @ robots_checks ys"
  by (induction xs rule: robots_checks.induct) auto

lemma enqueue_links_robots:
  "robots_checks (trace (snd (enqueue_links st links))) = robots_checks (trace st)"
proof (induction links arbitrary: st)
  case Nil
  then show ?case by simp
next
  case (Cons link links)
  show ?case
  proof (cases "r_sismember (redis st) ''seen_urls'' link")
    case (Inl e)
    then show ?thesis by simp
  next
    case (Inr b)
    show ?thesis
    proof (cases b)
      case True
      then show ?thesis using Inr Cons.IH by simp
    next
      case False
      then show ?thesis using Inr Cons.IH by (simp split: sum.splits)
    qed
  qed
qed

lemma seed_urls_robots:
  "robots_checks (trace (snd (seed_urls st urls))) = robots_checks (trace st)"
proof (induction urls arbitrary: st)
  case Nil
  then show ?case by simp
next
  case (Cons url urls)
  show ?case
  proof (cases "url = []")
    case True
    then show ?thesis using Cons.IH by simp
  next
    case ne: False
    show ?thesis
    proof (cases "r_sismember (redis st) ''seen_urls'' url")
      case (Inl e)
      then show ?thesis using ne by simp
    next
      case (Inr b)
      show ?thesis
      proof (cases b)
        case True
        then show ?thesis using ne Inr Cons.IH by simp
      next
        case False
        then show ?thesis using ne Inr Cons.IH by (simp split: sum.splits)
      qed
    qed
  qed
qed

lemma download_pdf_direct_robots:
  "robots_checks (trace (snd (download_pdf_direct E st url d))) = robots_checks (trace st)"
  using download_pdf_direct_cases [of E st url d] by auto

lemma render_and_enqueue_robots:
  "robots_checks (trace (snd (render_and_enqueue E st url))) = robots_checks (trace st)"
proof -
  obtain st3 links where a:
    "st3 = emit (Render url) st \<or> st3 = emit (HttpGet url) (emit (Render url) st)"
    "snd (render_and_enqueue E st url) = st3
     \<or> snd (render_and_enqueue E st url) = snd (enqueue_links st3 links)"
    using render_and_enqueue_cases by blast
  have "robots_checks (trace st3) = robots_checks (trace st)" using a(1) by auto
  then show ?thesis using a(2) enqueue_links_robots [of st3 links] by auto
qed

lemma process_url_robots:
  "robots_checks (trace st) = [] \<Longrightarrow> robots_checks (trace (snd (process_url n E st url))) = []"
  by (rule process_url_preserves(1) [where P = "\<lambda>s. robots_checks (trace s) = []"])
    (simp_all add: download_pdf_direct_robots render_and_enqueue_robots)

lemma crawl_loop_robots:
  "robots_checks (trace st) = [] \<Longrightarrow> robots_checks (trace (snd (crawl_loop k depth E st))) = []"
  by (rule crawl_loop_preserves [where P = "\<lambda>s. robots_checks (trace s) = []"])
    (simp_all add: process_url_robots split: option.splits)

lemma run_never_checks_robots:
  "robots_checks (trace (snd (run k depth E lines r fs))) = []"
proof -
  let ?st0 = "\<lparr> redis = reset r, files = fs, trace = [], allowed_domains = {} \<rparr>"
  show ?thesis
  proof (cases "seed_domains (map strip lines)")
    case (Inl e)
    then show ?thesis by (simp add: run_def)
  next
    case (Inr ds)
    have i1: "robots_checks (trace (snd (seed_urls (?st0\<lparr>allowed_domains := ds\<rparr>) (map strip lines)))) = []"
      by (simp add: seed_urls_robots)
    show ?thesis
    proof (cases "seed_urls (?st0\<lparr>allowed_domains := ds\<rparr>) (map strip lines)")
      case (Pair res st1)
      then have "robots_checks (trace st1) = []" using i1 by simp
      then show ?thesis using Inr Pair crawl_loop_robots [of st1 k depth E]
        by (cases res) (simp_all add: run_def)
    qed
  qed
qed

text \<open>
  C3 at a direct document and at a page: the processing of the URL is the politeness delay
  and then the fetch (the GET of the document; the rendering of the page and the fallback
  GET); the document is downloaded and the call returns True with no \<open>robots.txt\<close> request
  before the fetch, where C3 has the robots check evaluated first.
\<close>

theorem document_fetched_without_robots_check:
  "trace (snd (process_url 1 (serving ''application/xml'' bytes50) (fresh (\<lambda>k. None))
                 ''https://example.com/2022/doc.xml''))
     = [Delay ''https://example.com/2022/doc.xml'', HttpGet ''https://example.com/2022/doc.xml'']
   \<and> fst (process_url 1 (serving ''application/xml'' bytes50) (fresh (\<lambda>k. None))
            ''https://example.com/2022/doc.xml'') = True
   \<and> trace (snd (process_url 1 offline (fresh (\<lambda>k. None)) ''https://example.com/page''))
     = [Delay ''https://example.com/page'', Render ''https://example.com/page'',
        HttpGet ''https://example.com/page'']"
  by code_simp

subsection \<open>C4: the download log and the save\<close>

text \<open>
  C4 at a response of four bytes that the accept gate lets through: \<open>save_file\<close> rejects the
  content and returns \<open>(None, None)\<close>, and still one entry is pushed to the download log,
  with year and file path \<open>null\<close>, and the call returns True, where C4 has no entry when
  the save fails.
\<close>

theorem rejected_save_is_logged:
  "fst (process_url 1 (serving ''text/html'' ''tiny'') (fresh (\<lambda>k. None))
          ''https://example.com/a.xml'') = True
   \<and> fst (save_file (serving ''text/html'' ''tiny'') no_files ''tiny'' ''example.com''
          ''https://example.com/a.xml'' ''text/html'') = (None, None)
   \<and> log_of (redis (snd (process_url 1 (serving ''text/html'' ''tiny'') (fresh (\<lambda>k. None))
          ''https://example.com/a.xml'')))
     = [json_dumps \<lparr> le_timestamp = ''2026-11-04T09:00:00'', le_url = ''https://example.com/a.xml'',
                     le_domain = ''example.com'', le_year = None, le_file_path = None \<rparr>]"
  by code_simp

subsection \<open>C9: failures of the processing of a URL\<close>

text \<open>
  No exception leaves the crawl loop: a run ends with an exception only when the domain of a
  seed cannot be derived, before the first URL is processed; and a URL whose rendering and
  whose GET both fail gives False.
\<close>

lemma seed_urls_ok: "frontier_inv st \<Longrightarrow> fst (seed_urls st urls) = Inr ()"
proof (induction urls arbitrary: st)
  case Nil
  then show ?case by simp
next
  case (Cons url urls)
  have ty: "typed (redis st)" using Cons.prems by (simp add: frontier_inv_def)
  show ?case
  proof (cases "url = [] \<or> url \<in> seen_of (redis st)")
    case True
    then show ?thesis using Cons ty by (auto simp: sismember_typed)
  next
    case False
    then have ne: "url \<noteq> []" and fresh: "url \<notin> seen_of (redis st)" by auto
    obtain r1 where r1:
      "(if endswith (lower url) ''.pdf'' then r_lpush (redis st) ''url_queue'' url
        else r_rpush (redis st) ''url_queue'' url) = Inr r1" "typed r1"
      using rpush_typed [OF ty, of url] lpush_typed [OF ty, of url]
      by (cases "endswith (lower url) ''.pdf''") auto
    obtain r2 where r2: "r_sadd r1 ''seen_urls'' url = Inr r2"
      using sadd_typed [OF r1(2)] by blast
    have "frontier_inv (snd (seed_urls st [url]))"
      using Cons.prems by (rule seed_urls_inv)
    then have "frontier_inv (emit (Seeded url) (st\<lparr>redis := r2\<rparr>))"
      using ne fresh ty r1 r2 by (simp add: sismember_typed)
    then have "fst (seed_urls (emit (Seeded url) (st\<lparr>redis := r2\<rparr>)) urls) = Inr ()"
      by (rule Cons.IH)
    then show ?thesis using ne fresh ty r1 r2 by (simp add: sismember_typed)
  qed
qed

lemma crawl_loop_ok: "frontier_inv st \<Longrightarrow> fst (crawl_loop k depth E st) = Inr ()"
proof (induction k arbitrary: st)
  case 0
  then show ?case by simp
next
  case (Suc k)
  have ty: "typed (redis st)" using Suc.prems by (simp add: frontier_inv_def)
  obtain r' where r: "r_lpop (redis st) ''url_queue'' =
       Inr (case queue_of (redis st) of [] \<Rightarrow> None | x # xs \<Rightarrow> Some x, r')"
    using lpop_typed [OF ty] by blast
  let ?x = "case queue_of (redis st) of [] \<Rightarrow> None | x # xs \<Rightarrow> Some x"
  note p = frontier_inv_pop [OF Suc.prems r]
  show ?case
  proof (cases ?x)
    case None
    then have "frontier_inv (emit EmptyWait (st\<lparr>redis := r'\<rparr>))"
      using p by (auto intro: frontier_inv_frame)
    then show ?thesis using r None Suc.IH by simp
  next
    case (Some u)
    then have p1: "frontier_inv (emit (Dequeued u) (st\<lparr>redis := r'\<rparr>))" using p by simp
    show ?thesis
    proof (cases "u = []")
      case True
      have "frontier_inv (emit EmptyWait (emit (Dequeued u) (st\<lparr>redis := r'\<rparr>)))"
        using p1 by (auto intro: frontier_inv_frame)
      then show ?thesis using r Some True Suc.IH by (simp add: Let_def)
    next
      case False
      have "frontier_inv (snd (process_url depth E (emit (Dequeued u) (st\<lparr>redis := r'\<rparr>)) (strip u)))"
        using p1 by (rule process_url_inv)
      then show ?thesis using r Some False Suc.IH
        by (cases "process_url depth E (emit (Dequeued u) (st\<lparr>redis := r'\<rparr>)) (strip u)")
          (simp add: Let_def)
    qed
  qed
qed

lemma run_only_fails_in_seeding:
  "fst (run k depth E lines r fs) =
     (case seed_domains (map strip lines) of Inl e \<Rightarrow> Inl e | Inr ds \<Rightarrow> Inr ())"
proof -
  let ?st0 = "\<lparr> redis = reset r, files = fs, trace = [], allowed_domains = {} \<rparr>"
  have i0: "frontier_inv ?st0" by (simp add: frontier_inv_def reset_typed)
  show ?thesis
  proof (cases "seed_domains (map strip lines)")
    case (Inl e)
    then show ?thesis by (simp add: run_def)
  next
    case (Inr ds)
    have i: "frontier_inv (?st0\<lparr>allowed_domains := ds\<rparr>)"
      by (rule frontier_inv_frame [OF i0]) simp_all
    have ok: "fst (seed_urls (?st0\<lparr>allowed_domains := ds\<rparr>) (map strip lines)) = Inr ()"
      using i by (rule seed_urls_ok)
    have i1: "frontier_inv (snd (seed_urls (?st0\<lparr>allowed_domains := ds\<rparr>) (map strip lines)))"
      using i by (rule seed_urls_inv)
    show ?thesis
    proof (cases "seed_urls (?st0\<lparr>allowed_domains := ds\<rparr>) (map strip lines)")
      case (Pair res st1)
      then have "frontier_inv st1" "res = Inr ()" using i1 ok by simp_all
      then show ?thesis using Inr Pair crawl_loop_ok [of st1 k depth E]
        by (simp add: run_def)
    qed
  qed
qed

lemma failed_fetch_gives_False:
  "env_http_get E url = Inl e \<Longrightarrow> env_render E url = None \<Longrightarrow>
   fst (process_url n E st url) = False"
proof (cases n)
  case 0
  then show ?thesis by simp
next
  case (Suc m)
  assume a: "env_http_get E url = Inl e" "env_render E url = None"
  show ?thesis
    using a Suc
    by (auto simp: download_pdf_direct_def render_and_enqueue_def fetch_soup_def Let_def
        split: sum.splits)
qed

text \<open>
  C9 at a file system where the output directory cannot be made: the failure of the storage
  is caught in \<open>save_file\<close>, which returns \<open>(None, None)\<close>, and \<open>process_url\<close> returns
  True, where C9 has a storage failure give the failure result False.
\<close>

theorem failed_storage_reported_as_success:
  "fst (save_file (serving ''text/xml'' bytes50) blocked_root bytes50 ''example.com''
          ''https://example.com/feed.xml'' ''text/xml'') = (None, None)
   \<and> fst (process_url 1 (serving ''text/xml'' bytes50)
          ((fresh (\<lambda>k. None))\<lparr>files := blocked_root\<rparr>)
          ''https://example.com/feed.xml'') = True"
  by code_simp

end
